theory Spec2Isabelle
  imports Main
begin

section \<open>The collaborators of EdgeConReduction.c\<close>

text \<open>
  The reduction reads its input through \<open>Graph.h\<close>, \<open>EdgeConGraph.h\<close> and
  \<open>Z3Tools.h\<close>. The two graph structures are taken as records whose fields are the
  query functions the source calls: \<open>isEdge G u v\<close> is the C call \<open>isEdge(G, u, v)\<close>,
  \<open>isNodeInComponent graph v j\<close> is \<open>isNodeInComponent(graph, v, j)\<close>. The C type
  \<open>int\<close> is modelled by \<open>int\<close>, and every conversion to \<open>unsigned int\<close> is written out
  as \<open>u32\<close>. A loop counter is an unbounded \<open>int\<close> here; the counters of the source
  stay within the C type \<open>int\<close> whenever the graph has at least one component and a
  node count that is not negative, since then every loop bound is at most \<open>2^31 - 1\<close>.
\<close>

record Graph =
  numNodes :: int
  numEdges :: int
  isEdge :: "int \<Rightarrow> int \<Rightarrow> bool"

record EdgeConGraph =
  getGraph :: Graph
  getNumComponents :: int
  isNodeInComponent :: "int \<Rightarrow> int \<Rightarrow> bool"

text \<open>
  A Z3 term, as far as the reduction builds one: Boolean constants made by name
  (\<open>mk_bool_var\<close> of Z3Tools, two constants with the same name being the same term),
  negation, n-ary conjunction and disjunction, and the constant false. A model gives
  every name a truth value.
\<close>

datatype Z3_ast =
    mk_bool_var string
  | Z3_mk_not Z3_ast
  | Z3_mk_and "Z3_ast list"
  | Z3_mk_or "Z3_ast list"
  | Z3_mk_false

type_synonym Z3_model = "string \<Rightarrow> bool"

fun valueOfVarInModel :: "Z3_model \<Rightarrow> Z3_ast \<Rightarrow> bool" where
  "valueOfVarInModel model (mk_bool_var name) = model name"
| "valueOfVarInModel model (Z3_mk_not f) = (\<not> valueOfVarInModel model f)"
| "valueOfVarInModel model (Z3_mk_and fs) = list_all (valueOfVarInModel model) fs"
| "valueOfVarInModel model (Z3_mk_or fs) = list_ex (valueOfVarInModel model) fs"
| "valueOfVarInModel model Z3_mk_false = False"

text \<open>The variables a term mentions, in order of occurrence.\<close>

fun vars_of :: "Z3_ast \<Rightarrow> Z3_ast list" where
  "vars_of (mk_bool_var name) = [mk_bool_var name]"
| "vars_of (Z3_mk_not f) = vars_of f"
| "vars_of (Z3_mk_and fs) = concat (map vars_of fs)"
| "vars_of (Z3_mk_or fs) = concat (map vars_of fs)"
| "vars_of Z3_mk_false = []"

section \<open>Machine integers and loops\<close>

definition u32 :: "int \<Rightarrow> int" where
  "u32 x = x mod 2 ^ 32"

text \<open>The values of the C type \<open>int\<close>.\<close>

definition int_range :: "int \<Rightarrow> bool" where
  "int_range x \<longleftrightarrow> - 2147483648 \<le> x \<and> x \<le> 2147483647"

text \<open>
  \<open>for (int i = a; i < b; i++)\<close> with \<open>b\<close> of type \<open>int\<close>: the elements the body
  appends to the local array, in the order of the writes \<open>arr[pos++] = ...\<close>.
\<close>

function for_int :: "int \<Rightarrow> int \<Rightarrow> (int \<Rightarrow> 'a list) \<Rightarrow> 'a list" where
  "for_int i b body = (if i < b then body i @ for_int (i + 1) b body else [])"
  by pat_completeness auto
termination
  by (relation "measure (\<lambda>(i, b, body). nat (b - i))") auto

declare for_int.simps [simp del]

text \<open>
  The same loop with \<open>b\<close> of type \<open>unsigned int\<close> (the fields \<open>n\<close>, \<open>m\<close> and \<open>N\<close> of the
  context): C converts the counter to \<open>unsigned int\<close> before it compares, so a negative
  counter counts as a number of at least \<open>2^31\<close>. The bound is a stored
  \<open>unsigned int\<close>, for which \<open>u32 b = b\<close>.
\<close>

function for_uint :: "int \<Rightarrow> int \<Rightarrow> (int \<Rightarrow> 'a list) \<Rightarrow> 'a list" where
  "for_uint i b body = (if u32 i < u32 b then body i @ for_uint (i + 1) b body else [])"
  by pat_completeness auto
termination
proof (relation "measure (\<lambda>(i, b, body). nat (2 ^ 32 - 1 - u32 i))")
  show "wf (measure (\<lambda>(i, b, body). nat (2 ^ 32 - 1 - u32 i)))"
    by simp
next
  fix i b :: int and body :: "int \<Rightarrow> 'a list"
  assume lt: "u32 i < u32 b"
  have "u32 b < 2 ^ 32"
    by (simp add: u32_def)
  with lt have small: "i mod 2 ^ 32 + 1 < 2 ^ 32"
    by (simp add: u32_def)
  have "(i + 1) mod 2 ^ 32 = (i mod 2 ^ 32 + 1) mod 2 ^ 32"
    by (simp add: mod_add_left_eq)
  also have "\<dots> = i mod 2 ^ 32 + 1"
    using small by (simp add: mod_pos_pos_trivial)
  finally have "u32 (i + 1) = u32 i + 1"
    by (simp add: u32_def)
  with small show "((i + 1, b, body), (i, b, body)) \<in> measure (\<lambda>(i, b, body). nat (2 ^ 32 - 1 - u32 i))"
    by (simp add: u32_def)
qed

declare for_uint.simps [simp del]

section \<open>Variable naming\<close>

text \<open>
  \<open>snprintf(name, 40, fmt, ...)\<close> writes at most 39 characters; \<open>%d\<close> prints a decimal
  numeral with a minus sign for a negative number.
\<close>

fun decimal :: "nat \<Rightarrow> string" where
  "decimal x =
     (if x < 10 then [''0123456789'' ! x]
      else decimal (x div 10) @ [''0123456789'' ! (x mod 10)])"

declare decimal.simps [simp del]

definition fmt_d :: "int \<Rightarrow> string" where
  "fmt_d x = (if x < 0 then CHR ''-'' # decimal (nat (- x)) else decimal (nat x))"

definition snprintf40 :: "string \<Rightarrow> string" where
  "snprintf40 s = take 39 s"

definition getVariableIsIthTranslator :: "int \<Rightarrow> int \<Rightarrow> int \<Rightarrow> Z3_ast" where
  "getVariableIsIthTranslator node1 node2 number =
     (if node1 < node2
      then mk_bool_var (snprintf40
             (''x_[('' @ fmt_d node1 @ '','' @ fmt_d node2 @ ''),'' @ fmt_d number @ '']''))
      else mk_bool_var (snprintf40
             (''x_[('' @ fmt_d node2 @ '','' @ fmt_d node1 @ ''),'' @ fmt_d number @ '']'')))"

definition getVariableParent :: "int \<Rightarrow> int \<Rightarrow> Z3_ast" where
  "getVariableParent child parent =
     mk_bool_var (snprintf40 (''p_['' @ fmt_d child @ '','' @ fmt_d parent @ '']''))"

definition getVariableLevelInSpanningTree :: "int \<Rightarrow> int \<Rightarrow> Z3_ast" where
  "getVariableLevelInSpanningTree level component =
     mk_bool_var (snprintf40 (''l_['' @ fmt_d component @ '','' @ fmt_d level @ '']''))"

text \<open>The three macros \<open>X_\<close>, \<open>P_\<close> and \<open>L_\<close> of the source (a name cannot end with an
  underscore here); \<open>L_(j, h)\<close> passes the level \<open>h\<close> first.\<close>

definition X_of :: "int \<Rightarrow> int \<Rightarrow> int \<Rightarrow> Z3_ast" where
  "X_of n1 n2 i = getVariableIsIthTranslator n1 n2 i"

definition P_of :: "int \<Rightarrow> int \<Rightarrow> Z3_ast" where
  "P_of j1 j2 = getVariableParent j1 j2"

definition L_of :: "int \<Rightarrow> int \<Rightarrow> Z3_ast" where
  "L_of j h = getVariableLevelInSpanningTree h j"

section \<open>The reduction context\<close>

text \<open>
  The structure \<open>g_context_s\<close>; its fields carry the prefix \<open>ctx_\<close> here. \<open>n\<close>, \<open>m\<close>
  and \<open>N\<close> are \<open>unsigned int\<close>, \<open>C_H\<close> and \<open>k\<close> are \<open>int\<close>. The Z3 context handle is
  left out: it only owns the terms.
\<close>

record g_context_s =
  ctx_n :: int
  ctx_m :: int
  ctx_N :: int
  ctx_C_H :: int
  ctx_k :: int
  ctx_G :: Graph
  ctx_graph :: EdgeConGraph

definition init_g_context :: "EdgeConGraph \<Rightarrow> int \<Rightarrow> g_context_s" where
  "init_g_context graph cost =
     \<lparr> ctx_n = u32 (numNodes (getGraph graph)),
       ctx_m = u32 (numEdges (getGraph graph)),
       ctx_N = u32 (getNumComponents graph - 1),
       ctx_C_H = getNumComponents graph,
       ctx_k = cost,
       ctx_G = getGraph graph,
       ctx_graph = graph \<rparr>"

section \<open>The constraint builders\<close>

text \<open>
  Each builder fills a local array and hands its first \<open>pos\<close> entries to \<open>Z3_mk_and\<close>
  or \<open>Z3_mk_or\<close>. The function named after the array gives the entries written, the
  function named after the builder the term returned.
\<close>

definition phi_2_1 :: "g_context_s \<Rightarrow> Z3_ast list" where
  "phi_2_1 ctx =
     for_uint 0 (ctx_N ctx) (\<lambda>i.
       for_uint 0 (ctx_n ctx) (\<lambda>e1.
         for_uint (e1 + 1) (ctx_n ctx) (\<lambda>e2.
           if isEdge (ctx_G ctx) e1 e2 then
             for_uint 0 (ctx_n ctx) (\<lambda>f1.
               for_uint (f1 + 1) (ctx_n ctx) (\<lambda>f2.
                 if (e1 \<noteq> f1 \<or> e2 \<noteq> f2) \<and> isEdge (ctx_G ctx) f1 f2 then
                   [Z3_mk_or [Z3_mk_not (X_of e1 e2 i), Z3_mk_not (X_of f1 f2 i)]]
                 else []))
           else [])))"

definition build_phi_2_1 :: "g_context_s \<Rightarrow> Z3_ast" where
  "build_phi_2_1 ctx = Z3_mk_and (phi_2_1 ctx)"

definition phi_2_2 :: "g_context_s \<Rightarrow> Z3_ast list" where
  "phi_2_2 ctx =
     for_uint 0 (ctx_n ctx) (\<lambda>e1.
       for_uint (e1 + 1) (ctx_n ctx) (\<lambda>e2.
         if isEdge (ctx_G ctx) e1 e2 then
           for_uint 0 (ctx_N ctx) (\<lambda>i.
             for_uint (i + 1) (ctx_N ctx) (\<lambda>j.
               [Z3_mk_or [Z3_mk_not (X_of e1 e2 i), Z3_mk_not (X_of e1 e2 j)]]))
         else []))"

definition build_phi_2_2 :: "g_context_s \<Rightarrow> Z3_ast" where
  "build_phi_2_2 ctx = Z3_mk_and (phi_2_2 ctx)"

definition build_phi_2 :: "g_context_s \<Rightarrow> Z3_ast" where
  "build_phi_2 ctx = Z3_mk_and [build_phi_2_1 ctx, build_phi_2_2 ctx]"

definition phi_3_1_disj :: "g_context_s \<Rightarrow> int \<Rightarrow> Z3_ast list" where
  "phi_3_1_disj ctx j =
     for_int 0 (ctx_C_H ctx) (\<lambda>j1. if j \<noteq> j1 then [P_of j j1] else [])"

definition phi_3_1 :: "g_context_s \<Rightarrow> Z3_ast list" where
  "phi_3_1 ctx = for_int 1 (ctx_C_H ctx) (\<lambda>j. [Z3_mk_or (phi_3_1_disj ctx j)])"

definition build_phi_3_1 :: "g_context_s \<Rightarrow> Z3_ast" where
  "build_phi_3_1 ctx = Z3_mk_and (phi_3_1 ctx)"

definition phi_3_2 :: "g_context_s \<Rightarrow> Z3_ast list" where
  "phi_3_2 ctx =
     for_int 1 (ctx_C_H ctx) (\<lambda>j.
       for_int 0 (ctx_C_H ctx - 1) (\<lambda>j1.
         if j1 \<noteq> j then
           for_int (j1 + 1) (ctx_C_H ctx) (\<lambda>j2.
             if j2 \<noteq> j then
               [Z3_mk_or [Z3_mk_not (P_of j j1), Z3_mk_not (P_of j j2)]]
             else [])
         else []))"

definition build_phi_3_2 :: "g_context_s \<Rightarrow> Z3_ast" where
  "build_phi_3_2 ctx = Z3_mk_and (phi_3_2 ctx)"

definition build_phi_3 :: "g_context_s \<Rightarrow> Z3_ast" where
  "build_phi_3 ctx = Z3_mk_and [build_phi_3_1 ctx, build_phi_3_2 ctx]"

definition phi_4_1_disj :: "g_context_s \<Rightarrow> int \<Rightarrow> Z3_ast list" where
  "phi_4_1_disj ctx i = for_uint 0 (ctx_N ctx) (\<lambda>n. [L_of i n])"

definition phi_4_1 :: "g_context_s \<Rightarrow> Z3_ast list" where
  "phi_4_1 ctx = for_int 0 (ctx_C_H ctx) (\<lambda>i. [Z3_mk_or (phi_4_1_disj ctx i)])"

definition build_phi_4_1 :: "g_context_s \<Rightarrow> Z3_ast" where
  "build_phi_4_1 ctx = Z3_mk_and (phi_4_1 ctx)"

definition phi_4_2 :: "g_context_s \<Rightarrow> Z3_ast list" where
  "phi_4_2 ctx =
     for_int 0 (ctx_C_H ctx) (\<lambda>i.
       for_uint 0 (ctx_N ctx) (\<lambda>n.
         for_uint (n + 1) (ctx_N ctx) (\<lambda>n_prime.
           [Z3_mk_or [Z3_mk_not (L_of i n), Z3_mk_not (L_of i n_prime)]])))"

definition build_phi_4_2 :: "g_context_s \<Rightarrow> Z3_ast" where
  "build_phi_4_2 ctx = Z3_mk_and (phi_4_2 ctx)"

definition build_phi_4 :: "g_context_s \<Rightarrow> Z3_ast" where
  "build_phi_4 ctx = Z3_mk_and [build_phi_4_1 ctx, build_phi_4_2 ctx]"

definition phi_5 :: "g_context_s \<Rightarrow> Z3_ast list" where
  "phi_5 ctx =
     for_int 0 (ctx_C_H ctx) (\<lambda>i.
       for_uint (ctx_k ctx) (ctx_N ctx) (\<lambda>n. [L_of n i]))"

definition build_phi_5 :: "g_context_s \<Rightarrow> Z3_ast" where
  "build_phi_5 ctx = Z3_mk_or (phi_5 ctx)"

definition phi_6 :: "g_context_s \<Rightarrow> int \<Rightarrow> int \<Rightarrow> Z3_ast list" where
  "phi_6 ctx j1 j2 =
     for_uint 0 (ctx_n ctx) (\<lambda>u.
       for_uint (u + 1) (ctx_n ctx) (\<lambda>v.
         if isEdge (ctx_G ctx) u v \<and>
            isNodeInComponent (ctx_graph ctx) v j1 \<and>
            isNodeInComponent (ctx_graph ctx) u j2
         then for_uint 0 (ctx_N ctx) (\<lambda>i. [X_of u v i])
         else []))"

definition build_phi_6 :: "g_context_s \<Rightarrow> int \<Rightarrow> int \<Rightarrow> Z3_ast" where
  "build_phi_6 ctx j1 j2 =
     (if phi_6 ctx j1 j2 = [] then Z3_mk_false else Z3_mk_or (phi_6 ctx j1 j2))"

definition phi_7 :: "g_context_s \<Rightarrow> int \<Rightarrow> int \<Rightarrow> Z3_ast list" where
  "phi_7 ctx j1 j2 =
     for_uint 1 (ctx_N ctx) (\<lambda>h. [Z3_mk_or [Z3_mk_not (L_of j1 h), L_of j2 (h - 1)]])"

definition build_phi_7 :: "g_context_s \<Rightarrow> int \<Rightarrow> int \<Rightarrow> Z3_ast" where
  "build_phi_7 ctx j1 j2 = Z3_mk_and (phi_7 ctx j1 j2)"

definition phi_8 :: "g_context_s \<Rightarrow> Z3_ast list" where
  "phi_8 ctx =
     for_int 0 (ctx_C_H ctx) (\<lambda>j1.
       for_int 0 (ctx_C_H ctx) (\<lambda>j2.
         if j1 \<noteq> j2 then
           (let not_p_j1_j2 = Z3_mk_not (P_of j1 j2) in
            [Z3_mk_and
               [Z3_mk_or [not_p_j1_j2, build_phi_6 ctx j1 j2],
                Z3_mk_or [not_p_j1_j2, build_phi_7 ctx j1 j2]]])
         else []))"

definition build_phi_8 :: "g_context_s \<Rightarrow> Z3_ast" where
  "build_phi_8 ctx = Z3_mk_and (phi_8 ctx)"

definition EdgeConReduction :: "EdgeConGraph \<Rightarrow> int \<Rightarrow> Z3_ast" where
  "EdgeConReduction edgeGraph cost =
     (let ctx = init_g_context edgeGraph cost in
      Z3_mk_and
        [build_phi_2 ctx, build_phi_3 ctx, build_phi_4 ctx, build_phi_5 ctx, build_phi_8 ctx])"

section \<open>The declared lengths of the arrays and the write index\<close>

text \<open>
  Four builders declare their array with a length computed from the context. The
  lengths of \<open>phi_2_1\<close>, \<open>phi_2_2\<close> and \<open>phi_4_2\<close> are computed in \<open>unsigned int\<close>
  (an operand of type \<open>int\<close> is converted), that of \<open>phi_3_2\<close> in \<open>int\<close>, where an
  overflow is undefined: \<open>int_result\<close> is \<open>None\<close> then.
\<close>

definition int_result :: "int \<Rightarrow> int option" where
  "int_result x = (if int_range x then Some x else None)"

definition phi_2_1_length :: "g_context_s \<Rightarrow> int" where
  "phi_2_1_length ctx = u32 (ctx_N ctx * u32 (u32 (ctx_m ctx * ctx_m ctx) - 1))"

definition phi_2_2_length :: "g_context_s \<Rightarrow> int" where
  "phi_2_2_length ctx = u32 (ctx_m ctx * (u32 (ctx_N ctx * ctx_N ctx) div 2))"

definition phi_3_2_length :: "g_context_s \<Rightarrow> int option" where
  "phi_3_2_length ctx =
     Option.bind (int_result (ctx_C_H ctx - 1)) (\<lambda>c.
       Option.bind (int_result (c * c)) (\<lambda>sq. int_result (sq * c)))"

definition phi_4_2_length :: "g_context_s \<Rightarrow> int" where
  "phi_4_2_length ctx = u32 (u32 (ctx_C_H ctx) * (u32 (ctx_N ctx * ctx_N ctx) div 2))"

text \<open>
  Every builder keeps the position of its next write in a local \<open>int pos\<close>, set to 0
  and incremented by each write \<open>arr[pos++] = ...\<close>; the last value of \<open>pos\<close> is the
  number of arguments it passes to \<open>Z3_mk_and\<close> or \<open>Z3_mk_or\<close>. \<open>pos_after pos arr\<close>
  is the value of \<open>pos\<close> after the writes of the entries \<open>arr\<close>, and \<open>None\<close> when an
  increment leaves the type \<open>int\<close>, which is undefined in C; \<open>write_index arr\<close> is
  that value for a builder that wrote the entries \<open>arr\<close>, starting from \<open>pos = 0\<close>.
\<close>

fun pos_after :: "int \<Rightarrow> 'a list \<Rightarrow> int option" where
  "pos_after pos [] = Some pos"
| "pos_after pos (x # xs) = Option.bind (int_result (pos + 1)) (\<lambda>pos'. pos_after pos' xs)"

definition write_index :: "'a list \<Rightarrow> int option" where
  "write_index arr = pos_after 0 arr"

section \<open>The model decoder\<close>

definition is_the_ith_translator :: "Z3_model \<Rightarrow> EdgeConGraph \<Rightarrow> int \<Rightarrow> int \<Rightarrow> int \<Rightarrow> bool" where
  "is_the_ith_translator model graph n1 n2 i =
     valueOfVarInModel model (getVariableIsIthTranslator n1 n2 i)"

text \<open>
  \<open>getTranslatorSetFromModel\<close> acts on the graph only through \<open>addTranslator\<close> and
  \<open>computesHomogeneousComponents\<close>, both defined outside this file; the model records
  the calls it makes, in order. Here \<open>n\<close> and \<open>N\<close> are local variables of type \<open>int\<close>.
  The edge relation read by \<open>isEdge\<close> is taken not to change when an edge is marked
  as a translator.
\<close>

datatype graph_call = addTranslator int int | computesHomogeneousComponents

definition getTranslatorSetFromModel :: "Z3_model \<Rightarrow> EdgeConGraph \<Rightarrow> graph_call list" where
  "getTranslatorSetFromModel model graph =
     (let n = numNodes (getGraph graph);
          N = getNumComponents graph - 1
      in for_int 0 n (\<lambda>n1.
           for_int (n1 + 1) n (\<lambda>n2.
             if isEdge (getGraph graph) n1 n2 then
               for_int 0 N (\<lambda>i.
                 if is_the_ith_translator model graph n1 n2 i then [addTranslator n1 n2]
                 else [])
             else []))
         @ [computesHomogeneousComponents])"

section \<open>Vocabulary of the properties\<close>

text \<open>
  An existing edge, as every builder enumerates them: a pair of nodes \<open>e1 < e2\<close> below
  \<open>n\<close> that \<open>isEdge\<close> accepts.
\<close>

definition existing_edge :: "g_context_s \<Rightarrow> int \<Rightarrow> int \<Rightarrow> bool" where
  "existing_edge ctx e1 e2 \<longleftrightarrow>
     0 \<le> e1 \<and> e1 < e2 \<and> e2 < ctx_n ctx \<and> isEdge (ctx_G ctx) e1 e2"

text \<open>
  The nodes \<open>u\<close> and \<open>v\<close> lie one in the component \<open>j1\<close> and the other in the
  component \<open>j2\<close>: an edge \<open>(u, v)\<close> is then an edge between the two components.
\<close>

definition between_components :: "EdgeConGraph \<Rightarrow> int \<Rightarrow> int \<Rightarrow> int \<Rightarrow> int \<Rightarrow> bool" where
  "between_components graph j1 j2 u v \<longleftrightarrow>
     (isNodeInComponent graph u j1 \<and> isNodeInComponent graph v j2) \<or>
     (isNodeInComponent graph u j2 \<and> isNodeInComponent graph v j1)"

text \<open>
  The existing edges in the order of the loops; a graph has \<open>m\<close> edges when this list
  has \<open>m\<close> entries.
\<close>

definition edges_of :: "g_context_s \<Rightarrow> (int \<times> int) list" where
  "edges_of ctx =
     for_uint 0 (ctx_n ctx) (\<lambda>e1.
       for_uint (e1 + 1) (ctx_n ctx) (\<lambda>e2.
         if isEdge (ctx_G ctx) e1 e2 then [(e1, e2)] else []))"

section \<open>Instances\<close>

text \<open>
  \<open>graph2\<close>: two nodes joined by an edge, each node a component of its own.
  \<open>graph3\<close>: the star with centre 0 and leaves 1 and 2, each node a component.
\<close>

definition graph2 :: EdgeConGraph where
  "graph2 =
     \<lparr> getGraph =
         \<lparr> numNodes = 2, numEdges = 1,
           isEdge = (\<lambda>u v. (u = 0 \<and> v = 1) \<or> (u = 1 \<and> v = 0)) \<rparr>,
       getNumComponents = 2,
       isNodeInComponent = (\<lambda>v j. v = j) \<rparr>"

definition graph3 :: EdgeConGraph where
  "graph3 =
     \<lparr> getGraph =
         \<lparr> numNodes = 3, numEdges = 2,
           isEdge = (\<lambda>u v. (u = 0 \<and> (v = 1 \<or> v = 2)) \<or> (v = 0 \<and> (u = 1 \<or> u = 2))) \<rparr>,
       getNumComponents = 3,
       isNodeInComponent = (\<lambda>v j. v = j) \<rparr>"

text \<open>\<open>graph_star\<close>: the star with centre 0 and 46341 leaves, in three components.\<close>

definition graph_star :: EdgeConGraph where
  "graph_star =
     \<lparr> getGraph =
         \<lparr> numNodes = 46342, numEdges = 46341,
           isEdge = (\<lambda>u v. (u = 0 \<and> 0 < v) \<or> (v = 0 \<and> 0 < u)) \<rparr>,
       getNumComponents = 3,
       isNodeInComponent = (\<lambda>v j. if v = 0 then j = 0 else if v = 1 then j = 1 else j = 2) \<rparr>"

text \<open>
  \<open>graph_star_two\<close>: the star with centre 0 and 46342 leaves, in two components, the
  centre and the leaves. \<open>graph_wide\<close>: 1292 nodes, each a component of its own, and
  the single edge \<open>(0, 1)\<close>.
\<close>

definition graph_star_two :: EdgeConGraph where
  "graph_star_two =
     \<lparr> getGraph =
         \<lparr> numNodes = 46343, numEdges = 46342,
           isEdge = (\<lambda>u v. (u = 0 \<and> 0 < v) \<or> (v = 0 \<and> 0 < u)) \<rparr>,
       getNumComponents = 2,
       isNodeInComponent = (\<lambda>v j. if v = 0 then j = 0 else j = 1) \<rparr>"

definition graph_wide :: EdgeConGraph where
  "graph_wide =
     \<lparr> getGraph =
         \<lparr> numNodes = 1292, numEdges = 1,
           isEdge = (\<lambda>u v. (u = 0 \<and> v = 1) \<or> (u = 1 \<and> v = 0)) \<rparr>,
       getNumComponents = 1292,
       isNodeInComponent = (\<lambda>v j. v = j) \<rparr>"

text \<open>
  Four assignments. In \<open>model_tree\<close> the root is at level 0 and both leaves at level 1;
  in \<open>model_flat\<close> all three components are at level 0; in \<open>model_inverted\<close> the root
  is at level 1 and both leaves at level 0; \<open>model_two_levels\<close> is an assignment for
  \<open>graph2\<close> that sets \<open>l_[0,0]\<close> and \<open>l_[0,1]\<close>.
\<close>

definition model_tree :: Z3_model where
  "model_tree name =
     (name \<in> set [''x_[(0,1),0]'', ''x_[(0,2),1]'', ''p_[1,0]'', ''p_[2,0]'',
                  ''l_[0,0]'', ''l_[1,1]'', ''l_[2,1]''])"

definition model_flat :: Z3_model where
  "model_flat name =
     (name \<in> set [''x_[(0,1),0]'', ''x_[(0,2),1]'', ''p_[1,0]'', ''p_[2,0]'',
                  ''l_[0,0]'', ''l_[1,0]'', ''l_[2,0]''])"

definition model_inverted :: Z3_model where
  "model_inverted name =
     (name \<in> set [''x_[(0,1),0]'', ''x_[(0,2),1]'', ''p_[1,0]'', ''p_[2,0]'',
                  ''l_[0,1]'', ''l_[1,0]'', ''l_[2,0]''])"

definition model_two_levels :: Z3_model where
  "model_two_levels name =
     (name \<in> set [''x_[(0,1),0]'', ''p_[1,0]'', ''l_[0,0]'', ''l_[1,0]'', ''l_[0,1]''])"

section \<open>Loops as sets of iterations\<close>

lemma u32_nonneg [simp]: "0 \<le> u32 x"
  by (simp add: u32_def)

lemma u32_less [simp]: "u32 x < 4294967296"
  by (simp add: u32_def)

lemma u32_idem [simp]: "u32 (u32 x) = u32 x"
  by (simp add: u32_def)

lemma u32_id: "0 \<le> x \<Longrightarrow> x < 4294967296 \<Longrightarrow> u32 x = x"
  by (simp add: u32_def)

lemma in_for_int: "x \<in> set (for_int a b body) \<longleftrightarrow> (\<exists>i. a \<le> i \<and> i < b \<and> x \<in> set (body i))"
proof (induction a b body rule: for_int.induct)
  case (1 i b body)
  show ?case
  proof (cases "i < b")
    case True
    have "(\<exists>j. i \<le> j \<and> j < b \<and> x \<in> set (body j)) \<longleftrightarrow>
          x \<in> set (body i) \<or> (\<exists>j. i + 1 \<le> j \<and> j < b \<and> x \<in> set (body j))"
      using True by (metis add1_zle_eq order_le_less)
    with True 1 show ?thesis
      by (simp add: for_int.simps [of i b body])
  next
    case False
    then show ?thesis
      by (simp add: for_int.simps [of i b body])
  qed
qed

lemma for_int_Nil: "(\<And>i. a \<le> i \<Longrightarrow> i < b \<Longrightarrow> body i = []) \<Longrightarrow> for_int a b body = []"
proof -
  assume "\<And>i. a \<le> i \<Longrightarrow> i < b \<Longrightarrow> body i = []"
  then have "set (for_int a b body) = {}"
    unfolding set_eq_iff in_for_int by simp
  then show ?thesis
    by simp
qed

lemma for_uint_for_int_aux:
  "0 \<le> a \<Longrightarrow> a < 4294967296 \<Longrightarrow> c = u32 b \<Longrightarrow> for_uint a b body = for_int a c body"
proof (induction a c body rule: for_int.induct)
  case (1 i c body)
  show ?case
  proof (cases "i < c")
    case True
    have "i + 1 < 4294967296"
      using True "1.prems" u32_less [of b] by linarith
    with True 1 show ?thesis
      by (simp add: for_int.simps [of i "u32 b" body] for_uint.simps [of i b body] u32_id)
  next
    case False
    with 1 show ?thesis
      by (simp add: for_int.simps [of i "u32 b" body] for_uint.simps [of i b body] u32_id)
  qed
qed

lemma for_uint_for_int:
  "0 \<le> a \<Longrightarrow> a < 4294967296 \<Longrightarrow> for_uint a b body = for_int a (u32 b) body"
  by (rule for_uint_for_int_aux) simp_all

lemma in_for_uint:
  "0 \<le> a \<Longrightarrow> a < 4294967296 \<Longrightarrow>
   x \<in> set (for_uint a b body) \<longleftrightarrow> (\<exists>i. a \<le> i \<and> i < u32 b \<and> x \<in> set (body i))"
  by (simp add: for_uint_for_int in_for_int)

lemma in_for_uint_0 [simp]:
  "x \<in> set (for_uint 0 b body) \<longleftrightarrow> (\<exists>i. 0 \<le> i \<and> i < u32 b \<and> x \<in> set (body i))"
  by (simp add: in_for_uint)

lemma in_for_uint_1 [simp]:
  "x \<in> set (for_uint 1 b body) \<longleftrightarrow> (\<exists>i. 1 \<le> i \<and> i < u32 b \<and> x \<in> set (body i))"
  by (simp add: in_for_uint)

lemma in_for_uint_succ:
  "0 \<le> e \<Longrightarrow> e < u32 c \<Longrightarrow>
   x \<in> set (for_uint (e + 1) b body) \<longleftrightarrow> (\<exists>i. e < i \<and> i < u32 b \<and> x \<in> set (body i))"
proof -
  assume "0 \<le> e" "e < u32 c"
  then have "0 \<le> e + 1" "e + 1 < 4294967296"
    using u32_less [of c] by linarith+
  then show ?thesis
    by (simp add: in_for_uint) (metis add1_zle_eq)
qed

section \<open>The entries of each array\<close>

lemma in_phi_2_1:
  "c \<in> set (phi_2_1 ctx) \<longleftrightarrow>
   (\<exists>i\<ge>0. i < u32 (ctx_N ctx) \<and>
     (\<exists>e1\<ge>0. e1 < u32 (ctx_n ctx) \<and>
       (\<exists>e2>e1. e2 < u32 (ctx_n ctx) \<and> isEdge (ctx_G ctx) e1 e2 \<and>
         (\<exists>f1\<ge>0. f1 < u32 (ctx_n ctx) \<and>
           (\<exists>f2>f1. f2 < u32 (ctx_n ctx) \<and> c = Z3_mk_or [Z3_mk_not (X_of e1 e2 i), Z3_mk_not (X_of f1 f2 i)] \<and>
              (e1 = f1 \<longrightarrow> e2 \<noteq> f2) \<and> isEdge (ctx_G ctx) f1 f2)))))"
  unfolding phi_2_1_def
  by (simp add: in_for_uint_succ cong: conj_cong)

lemma in_phi_2_2:
  "c \<in> set (phi_2_2 ctx) \<longleftrightarrow>
   (\<exists>e1\<ge>0. e1 < u32 (ctx_n ctx) \<and>
     (\<exists>e2>e1. e2 < u32 (ctx_n ctx) \<and> isEdge (ctx_G ctx) e1 e2 \<and>
       (\<exists>i\<ge>0. i < u32 (ctx_N ctx) \<and>
         (\<exists>j>i. j < u32 (ctx_N ctx) \<and>
            c = Z3_mk_or [Z3_mk_not (X_of e1 e2 i), Z3_mk_not (X_of e1 e2 j)]))))"
  unfolding phi_2_2_def
  by (simp add: in_for_uint_succ cong: conj_cong)

lemma in_phi_3_1_disj:
  "d \<in> set (phi_3_1_disj ctx j) \<longleftrightarrow>
   (\<exists>j1\<ge>0. j1 < ctx_C_H ctx \<and> d = P_of j j1 \<and> j \<noteq> j1)"
  unfolding phi_3_1_disj_def
  by (simp add: in_for_int cong: conj_cong)

lemma in_phi_3_1:
  "c \<in> set (phi_3_1 ctx) \<longleftrightarrow>
   (\<exists>j\<ge>1. j < ctx_C_H ctx \<and> c = Z3_mk_or (phi_3_1_disj ctx j))"
  unfolding phi_3_1_def
  by (simp add: in_for_int cong: conj_cong)

lemma in_phi_3_2:
  "c \<in> set (phi_3_2 ctx) \<longleftrightarrow>
   (\<exists>j\<ge>1. j < ctx_C_H ctx \<and>
     (\<exists>j1\<ge>0. j1 < ctx_C_H ctx - 1 \<and> j1 \<noteq> j \<and>
       (\<exists>j2\<ge>j1 + 1. j2 < ctx_C_H ctx \<and>
          c = Z3_mk_or [Z3_mk_not (P_of j j1), Z3_mk_not (P_of j j2)] \<and> j2 \<noteq> j)))"
  unfolding phi_3_2_def
  by (simp add: in_for_int cong: conj_cong)

lemma in_phi_4_1_disj:
  "d \<in> set (phi_4_1_disj ctx i) \<longleftrightarrow> (\<exists>n\<ge>0. n < u32 (ctx_N ctx) \<and> d = L_of i n)"
  unfolding phi_4_1_disj_def
  by (simp cong: conj_cong)

lemma in_phi_4_1:
  "c \<in> set (phi_4_1 ctx) \<longleftrightarrow>
   (\<exists>i\<ge>0. i < ctx_C_H ctx \<and> c = Z3_mk_or (phi_4_1_disj ctx i))"
  unfolding phi_4_1_def
  by (simp add: in_for_int cong: conj_cong)

lemma in_phi_4_2:
  "c \<in> set (phi_4_2 ctx) \<longleftrightarrow>
   (\<exists>i\<ge>0. i < ctx_C_H ctx \<and>
     (\<exists>n\<ge>0. n < u32 (ctx_N ctx) \<and>
       (\<exists>n_prime>n. n_prime < u32 (ctx_N ctx) \<and>
          c = Z3_mk_or [Z3_mk_not (L_of i n), Z3_mk_not (L_of i n_prime)])))"
  unfolding phi_4_2_def
  by (simp add: in_for_int in_for_uint_succ cong: conj_cong)

lemma in_phi_6:
  "d \<in> set (phi_6 ctx j1 j2) \<longleftrightarrow>
   (\<exists>u\<ge>0. u < u32 (ctx_n ctx) \<and>
     (\<exists>v>u. v < u32 (ctx_n ctx) \<and> isEdge (ctx_G ctx) u v \<and>
        isNodeInComponent (ctx_graph ctx) v j1 \<and> isNodeInComponent (ctx_graph ctx) u j2 \<and>
       (\<exists>i\<ge>0. i < u32 (ctx_N ctx) \<and> d = X_of u v i)))"
  unfolding phi_6_def
  by (simp add: in_for_uint_succ cong: conj_cong)

lemma in_phi_7:
  "c \<in> set (phi_7 ctx j1 j2) \<longleftrightarrow>
   (\<exists>h\<ge>1. h < u32 (ctx_N ctx) \<and> c = Z3_mk_or [Z3_mk_not (L_of j1 h), L_of j2 (h - 1)])"
  unfolding phi_7_def
  by (simp cong: conj_cong)

lemma in_phi_8:
  "c \<in> set (phi_8 ctx) \<longleftrightarrow>
   (\<exists>j1\<ge>0. j1 < ctx_C_H ctx \<and>
     (\<exists>j2\<ge>0. j2 < ctx_C_H ctx \<and>
        c = Z3_mk_and
              [Z3_mk_or [Z3_mk_not (P_of j1 j2), build_phi_6 ctx j1 j2],
               Z3_mk_or [Z3_mk_not (P_of j1 j2), build_phi_7 ctx j1 j2]] \<and> j1 \<noteq> j2))"
  unfolding phi_8_def
  by (simp add: in_for_int Let_def cong: conj_cong)


section \<open>What a satisfying model satisfies\<close>

lemma value_and: "valueOfVarInModel model (Z3_mk_and fs) \<longleftrightarrow> (\<forall>f\<in>set fs. valueOfVarInModel model f)"
  by (simp add: list_all_iff)

lemma value_or: "valueOfVarInModel model (Z3_mk_or fs) \<longleftrightarrow> (\<exists>f\<in>set fs. valueOfVarInModel model f)"
  by (simp add: list_ex_iff)

lemma EdgeConReduction_parts:
  "valueOfVarInModel model (EdgeConReduction graph cost) \<longleftrightarrow>
     (\<forall>c\<in>set (phi_2_1 (init_g_context graph cost)). valueOfVarInModel model c) \<and>
     (\<forall>c\<in>set (phi_2_2 (init_g_context graph cost)). valueOfVarInModel model c) \<and>
     (\<forall>c\<in>set (phi_3_1 (init_g_context graph cost)). valueOfVarInModel model c) \<and>
     (\<forall>c\<in>set (phi_3_2 (init_g_context graph cost)). valueOfVarInModel model c) \<and>
     (\<forall>c\<in>set (phi_4_1 (init_g_context graph cost)). valueOfVarInModel model c) \<and>
     (\<forall>c\<in>set (phi_4_2 (init_g_context graph cost)). valueOfVarInModel model c) \<and>
     (\<exists>c\<in>set (phi_5 (init_g_context graph cost)). valueOfVarInModel model c) \<and>
     (\<forall>c\<in>set (phi_8 (init_g_context graph cost)). valueOfVarInModel model c)"
  by (simp add: EdgeConReduction_def Let_def build_phi_2_def build_phi_2_1_def build_phi_2_2_def
      build_phi_3_def build_phi_3_1_def build_phi_3_2_def build_phi_4_def build_phi_4_1_def
      build_phi_4_2_def build_phi_5_def build_phi_8_def list_all_iff list_ex_iff)

lemma ctx_N_init [simp]: "u32 (ctx_N (init_g_context graph cost)) = ctx_N (init_g_context graph cost)"
  by (simp add: init_g_context_def)

lemma ctx_n_init [simp]: "u32 (ctx_n (init_g_context graph cost)) = ctx_n (init_g_context graph cost)"
  by (simp add: init_g_context_def)

text \<open>For a graph with at least one component, \<open>N = C_H - 1\<close> as the context stores it.\<close>

lemma ctx_N_eq:
  assumes "1 \<le> getNumComponents graph" "getNumComponents graph \<le> 2147483647"
  shows "ctx_N (init_g_context graph cost) = getNumComponents graph - 1"
  using assms by (simp add: init_g_context_def u32_id)

lemma ctx_n_eq:
  assumes "0 \<le> numNodes (getGraph graph)" "numNodes (getGraph graph) \<le> 2147483647"
  shows "ctx_n (init_g_context graph cost) = numNodes (getGraph graph)"
  using assms by (simp add: init_g_context_def u32_id)

lemma phi_2_1_holds:
  assumes sat: "valueOfVarInModel model (EdgeConReduction graph cost)"
    and e: "existing_edge (init_g_context graph cost) e1 e2"
    and f: "existing_edge (init_g_context graph cost) f1 f2"
    and i: "0 \<le> i" "i < ctx_N (init_g_context graph cost)"
    and ne: "e1 \<noteq> f1 \<or> e2 \<noteq> f2"
  shows "\<not> (valueOfVarInModel model (X_of e1 e2 i) \<and> valueOfVarInModel model (X_of f1 f2 i))"
proof -
  let ?ctx = "init_g_context graph cost"
  let ?c = "Z3_mk_or [Z3_mk_not (X_of e1 e2 i), Z3_mk_not (X_of f1 f2 i)]"
  have "e1 < ctx_n ?ctx" "f1 < ctx_n ?ctx"
    using e f by (auto simp: existing_edge_def)
  then have "?c \<in> set (phi_2_1 ?ctx)"
    using e f i ne unfolding in_phi_2_1 ctx_N_init ctx_n_init existing_edge_def
    by blast
  moreover from sat have "\<forall>c\<in>set (phi_2_1 ?ctx). valueOfVarInModel model c"
    by (simp add: EdgeConReduction_parts)
  ultimately have "valueOfVarInModel model ?c"
    by blast
  then show ?thesis
    by simp
qed

lemma phi_2_2_holds:
  assumes sat: "valueOfVarInModel model (EdgeConReduction graph cost)"
    and e: "existing_edge (init_g_context graph cost) e1 e2"
    and i: "0 \<le> i" "i < j" "j < ctx_N (init_g_context graph cost)"
  shows "\<not> (valueOfVarInModel model (X_of e1 e2 i) \<and> valueOfVarInModel model (X_of e1 e2 j))"
proof -
  let ?ctx = "init_g_context graph cost"
  let ?c = "Z3_mk_or [Z3_mk_not (X_of e1 e2 i), Z3_mk_not (X_of e1 e2 j)]"
  have "e1 < ctx_n ?ctx" "i < ctx_N ?ctx"
    using e i by (auto simp: existing_edge_def)
  then have "?c \<in> set (phi_2_2 ?ctx)"
    using e i unfolding in_phi_2_2 ctx_N_init ctx_n_init existing_edge_def
    by blast
  moreover from sat have "\<forall>c\<in>set (phi_2_2 ?ctx). valueOfVarInModel model c"
    by (simp add: EdgeConReduction_parts)
  ultimately have "valueOfVarInModel model ?c"
    by blast
  then show ?thesis
    by simp
qed

lemma phi_3_1_holds:
  assumes sat: "valueOfVarInModel model (EdgeConReduction graph cost)"
    and j: "1 \<le> j" "j < getNumComponents graph"
  shows "\<exists>j1. 0 \<le> j1 \<and> j1 < getNumComponents graph \<and> j1 \<noteq> j \<and>
           valueOfVarInModel model (P_of j j1)"
proof -
  let ?ctx = "init_g_context graph cost"
  have C: "ctx_C_H ?ctx = getNumComponents graph"
    by (simp add: init_g_context_def)
  have "Z3_mk_or (phi_3_1_disj ?ctx j) \<in> set (phi_3_1 ?ctx)"
    using j unfolding in_phi_3_1 C by blast
  moreover from sat have "\<forall>c\<in>set (phi_3_1 ?ctx). valueOfVarInModel model c"
    by (simp add: EdgeConReduction_parts)
  ultimately have "valueOfVarInModel model (Z3_mk_or (phi_3_1_disj ?ctx j))"
    by blast
  then obtain d where "d \<in> set (phi_3_1_disj ?ctx j)" "valueOfVarInModel model d"
    unfolding value_or by blast
  then show ?thesis
    unfolding in_phi_3_1_disj C by blast
qed

lemma phi_3_2_holds:
  assumes sat: "valueOfVarInModel model (EdgeConReduction graph cost)"
    and j: "1 \<le> j" "j < getNumComponents graph"
    and j1: "0 \<le> j1" "j1 < j2" "j2 < getNumComponents graph" "j1 \<noteq> j" "j2 \<noteq> j"
  shows "\<not> (valueOfVarInModel model (P_of j j1) \<and> valueOfVarInModel model (P_of j j2))"
proof -
  let ?ctx = "init_g_context graph cost"
  let ?c = "Z3_mk_or [Z3_mk_not (P_of j j1), Z3_mk_not (P_of j j2)]"
  have C: "ctx_C_H ?ctx = getNumComponents graph"
    by (simp add: init_g_context_def)
  have "j1 < getNumComponents graph - 1" "j1 + 1 \<le> j2"
    using j1 by linarith+
  then have "?c \<in> set (phi_3_2 ?ctx)"
    using j j1 unfolding in_phi_3_2 C by blast
  moreover from sat have "\<forall>c\<in>set (phi_3_2 ?ctx). valueOfVarInModel model c"
    by (simp add: EdgeConReduction_parts)
  ultimately have "valueOfVarInModel model ?c"
    by blast
  then show ?thesis
    by simp
qed

lemma phi_4_1_holds:
  assumes sat: "valueOfVarInModel model (EdgeConReduction graph cost)"
    and i: "0 \<le> i" "i < getNumComponents graph"
  shows "\<exists>n. 0 \<le> n \<and> n < ctx_N (init_g_context graph cost) \<and>
           valueOfVarInModel model (L_of i n)"
proof -
  let ?ctx = "init_g_context graph cost"
  have C: "ctx_C_H ?ctx = getNumComponents graph"
    by (simp add: init_g_context_def)
  have "Z3_mk_or (phi_4_1_disj ?ctx i) \<in> set (phi_4_1 ?ctx)"
    using i unfolding in_phi_4_1 C by blast
  moreover from sat have "\<forall>c\<in>set (phi_4_1 ?ctx). valueOfVarInModel model c"
    by (simp add: EdgeConReduction_parts)
  ultimately have "valueOfVarInModel model (Z3_mk_or (phi_4_1_disj ?ctx i))"
    by blast
  then obtain d where "d \<in> set (phi_4_1_disj ?ctx i)" "valueOfVarInModel model d"
    unfolding value_or by blast
  then show ?thesis
    unfolding in_phi_4_1_disj ctx_N_init by blast
qed

lemma phi_4_2_holds:
  assumes sat: "valueOfVarInModel model (EdgeConReduction graph cost)"
    and i: "0 \<le> i" "i < getNumComponents graph"
    and n: "0 \<le> n" "n < n'" "n' < ctx_N (init_g_context graph cost)"
  shows "\<not> (valueOfVarInModel model (L_of i n) \<and> valueOfVarInModel model (L_of i n'))"
proof -
  let ?ctx = "init_g_context graph cost"
  let ?c = "Z3_mk_or [Z3_mk_not (L_of i n), Z3_mk_not (L_of i n')]"
  have C: "ctx_C_H ?ctx = getNumComponents graph"
    by (simp add: init_g_context_def)
  have "n < ctx_N ?ctx"
    using n by linarith
  then have "?c \<in> set (phi_4_2 ?ctx)"
    using i n unfolding in_phi_4_2 C ctx_N_init by blast
  moreover from sat have "\<forall>c\<in>set (phi_4_2 ?ctx). valueOfVarInModel model c"
    by (simp add: EdgeConReduction_parts)
  ultimately have "valueOfVarInModel model ?c"
    by blast
  then show ?thesis
    by simp
qed

lemma phi_8_holds:
  assumes sat: "valueOfVarInModel model (EdgeConReduction graph cost)"
    and j: "0 \<le> j1" "j1 < getNumComponents graph" "0 \<le> j2" "j2 < getNumComponents graph"
      "j1 \<noteq> j2"
    and p: "valueOfVarInModel model (P_of j1 j2)"
  shows "valueOfVarInModel model (build_phi_6 (init_g_context graph cost) j1 j2) \<and>
         valueOfVarInModel model (build_phi_7 (init_g_context graph cost) j1 j2)"
proof -
  let ?ctx = "init_g_context graph cost"
  let ?c = "Z3_mk_and
              [Z3_mk_or [Z3_mk_not (P_of j1 j2), build_phi_6 ?ctx j1 j2],
               Z3_mk_or [Z3_mk_not (P_of j1 j2), build_phi_7 ?ctx j1 j2]]"
  have C: "ctx_C_H ?ctx = getNumComponents graph"
    by (simp add: init_g_context_def)
  have "?c \<in> set (phi_8 ?ctx)"
    using j unfolding in_phi_8 C by blast
  moreover from sat have "\<forall>c\<in>set (phi_8 ?ctx). valueOfVarInModel model c"
    by (simp add: EdgeConReduction_parts)
  ultimately have "valueOfVarInModel model ?c"
    by blast
  with p show ?thesis
    by simp
qed

lemma phi_6_holds:
  assumes "valueOfVarInModel model (build_phi_6 ctx j1 j2)"
  shows "\<exists>u v i. 0 \<le> u \<and> u < v \<and> v < u32 (ctx_n ctx) \<and> isEdge (ctx_G ctx) u v \<and>
           isNodeInComponent (ctx_graph ctx) v j1 \<and> isNodeInComponent (ctx_graph ctx) u j2 \<and>
           0 \<le> i \<and> i < u32 (ctx_N ctx) \<and> valueOfVarInModel model (X_of u v i)"
proof -
  from assms have "valueOfVarInModel model (Z3_mk_or (phi_6 ctx j1 j2))"
    by (simp add: build_phi_6_def split: if_splits)
  then obtain d where "d \<in> set (phi_6 ctx j1 j2)" "valueOfVarInModel model d"
    unfolding value_or by blast
  then show ?thesis
    unfolding in_phi_6 by blast
qed

lemma phi_7_holds:
  assumes "valueOfVarInModel model (build_phi_7 ctx j1 j2)"
    and "1 \<le> h" "h < u32 (ctx_N ctx)"
    and "valueOfVarInModel model (L_of j1 h)"
  shows "valueOfVarInModel model (L_of j2 (h - 1))"
proof -
  let ?c = "Z3_mk_or [Z3_mk_not (L_of j1 h), L_of j2 (h - 1)]"
  have "?c \<in> set (phi_7 ctx j1 j2)"
    using assms(2,3) unfolding in_phi_7 by blast
  moreover from assms(1) have "\<forall>c\<in>set (phi_7 ctx j1 j2). valueOfVarInModel model c"
    by (simp add: build_phi_7_def list_all_iff)
  ultimately have "valueOfVarInModel model ?c"
    by blast
  with assms(4) show ?thesis
    by simp
qed

lemma phi_6_false:
  assumes "\<not> (\<exists>u v. 0 \<le> u \<and> u < v \<and> v < u32 (ctx_n ctx) \<and> isEdge (ctx_G ctx) u v \<and>
           isNodeInComponent (ctx_graph ctx) v j1 \<and> isNodeInComponent (ctx_graph ctx) u j2)"
  shows "build_phi_6 ctx j1 j2 = Z3_mk_false"
proof -
  have "set (phi_6 ctx j1 j2) = {}"
    using assms unfolding set_eq_iff in_phi_6 by blast
  then show ?thesis
    by (simp add: build_phi_6_def)
qed

lemma phi_5_empty:
  assumes "getNumComponents graph - 1 \<le> cost" "cost \<le> 2147483647"
  shows "phi_5 (init_g_context graph cost) = []"
proof (cases "1 \<le> getNumComponents graph")
  case True
  with assms have N: "u32 (getNumComponents graph - 1) = getNumComponents graph - 1"
    and k: "u32 cost = cost"
    by (simp_all add: u32_id)
  have "for_uint cost (u32 (getNumComponents graph - 1)) body = []" for body :: "int \<Rightarrow> Z3_ast list"
    using assms by (simp add: for_uint.simps [of cost] N k)
  then show ?thesis
    by (simp add: phi_5_def init_g_context_def for_int_Nil)
next
  case False
  then show ?thesis
    by (simp add: phi_5_def init_g_context_def for_int.simps [of 0])
qed

text \<open>The formula of \<open>graph3\<close> with bound 1 is satisfied by both assignments.\<close>

lemma model_tree_sat: "valueOfVarInModel model_tree (EdgeConReduction graph3 1)"
  by code_simp

lemma model_flat_sat: "valueOfVarInModel model_flat (EdgeConReduction graph3 1)"
  by code_simp

section \<open>Variable naming is symmetric in the endpoints\<close>

text \<open>
  C9. For all nodes \<open>n1\<close>, \<open>n2\<close> and every translator identity \<open>i\<close>,
  \<open>getVariableIsIthTranslator\<close> returns the same variable (the constant of the same
  name) for \<open>(n1, n2, i)\<close> and for \<open>(n2, n1, i)\<close>: the smaller node is printed first.
\<close>

theorem getVariableIsIthTranslator_sym:
  "getVariableIsIthTranslator n1 n2 i = getVariableIsIthTranslator n2 n1 i"
  by (simp add: getVariableIsIthTranslator_def)

section \<open>Translator assignment\<close>

text \<open>
  C4. In a model of the formula returned by \<open>EdgeConReduction\<close>, the assignment of
  translator identities to edges is a partial injective mapping: for existing edges
  \<open>(e1, e2)\<close>, \<open>(f1, f2)\<close> and identities \<open>i\<close>, \<open>j\<close> in \<open>[0, N)\<close>, identity \<open>i\<close> is
  not set on both edges when they differ, and the edge \<open>(e1, e2)\<close> does not carry
  both identities when they differ.
\<close>

theorem translator_assignment_partial_injective:
  assumes "valueOfVarInModel model (EdgeConReduction graph cost)"
    and "existing_edge (init_g_context graph cost) e1 e2"
    and "existing_edge (init_g_context graph cost) f1 f2"
    and "0 \<le> i" "i < ctx_N (init_g_context graph cost)"
    and "0 \<le> j" "j < ctx_N (init_g_context graph cost)"
  shows "(e1 \<noteq> f1 \<or> e2 \<noteq> f2 \<longrightarrow>
            \<not> (is_the_ith_translator model graph e1 e2 i \<and>
               is_the_ith_translator model graph f1 f2 i)) \<and>
         (i \<noteq> j \<longrightarrow>
            \<not> (is_the_ith_translator model graph e1 e2 i \<and>
               is_the_ith_translator model graph e1 e2 j))"
proof (intro conjI impI)
  assume "e1 \<noteq> f1 \<or> e2 \<noteq> f2"
  with assms show "\<not> (is_the_ith_translator model graph e1 e2 i \<and>
      is_the_ith_translator model graph f1 f2 i)"
    using phi_2_1_holds [of model graph cost e1 e2 f1 f2 i]
    by (simp add: is_the_ith_translator_def X_of_def)
next
  assume "i \<noteq> j"
  then consider "i < j" | "j < i"
    by linarith
  then show "\<not> (is_the_ith_translator model graph e1 e2 i \<and>
      is_the_ith_translator model graph e1 e2 j)"
  proof cases
    case 1
    with assms show ?thesis
      using phi_2_2_holds [of model graph cost e1 e2 i j]
      by (simp add: is_the_ith_translator_def X_of_def)
  next
    case 2
    with assms show ?thesis
      using phi_2_2_holds [of model graph cost e1 e2 j i]
      by (auto simp: is_the_ith_translator_def X_of_def)
  qed
qed

text \<open>
  On \<open>graph3\<close> with \<open>model_tree\<close>: identity 0 is on the edge \<open>(0, 1)\<close>, so it is not on
  \<open>(0, 2)\<close>, and \<open>(0, 1)\<close> does not carry identity 1.
\<close>

theorem translator_assignment_partial_injective_witness:
  "valueOfVarInModel model_tree (EdgeConReduction graph3 1) \<and>
   existing_edge (init_g_context graph3 1) 0 1 \<and>
   existing_edge (init_g_context graph3 1) 0 2 \<and>
   ctx_N (init_g_context graph3 1) = 2 \<and>
   is_the_ith_translator model_tree graph3 0 1 0 \<and>
   \<not> is_the_ith_translator model_tree graph3 0 2 0 \<and>
   \<not> is_the_ith_translator model_tree graph3 0 1 1"
proof -
  have e: "existing_edge (init_g_context graph3 1) 0 1"
    and f: "existing_edge (init_g_context graph3 1) 0 2"
    and N: "ctx_N (init_g_context graph3 1) = 2"
    and x: "is_the_ith_translator model_tree graph3 0 1 0"
    by code_simp+
  have i: "(0::int) \<le> 0" "0 < ctx_N (init_g_context graph3 1)"
    and j: "(0::int) \<le> 1" "1 < ctx_N (init_g_context graph3 1)"
    by (simp_all add: N)
  show ?thesis
    using translator_assignment_partial_injective [OF model_tree_sat e f i j]
      model_tree_sat e f N x
    by simp
qed

section \<open>Parent structure\<close>

text \<open>
  C5. In a model of the formula returned by \<open>EdgeConReduction\<close>, every non-root
  component \<open>j\<close> in \<open>[1, C_H)\<close> has exactly one component \<open>j1 \<noteq> j\<close> for which
  \<open>P(j, j1)\<close> is true.
\<close>

theorem non_root_has_exactly_one_parent:
  assumes "valueOfVarInModel model (EdgeConReduction graph cost)"
    and "1 \<le> j" "j < getNumComponents graph"
  shows "\<exists>!j1. 0 \<le> j1 \<and> j1 < getNumComponents graph \<and> j1 \<noteq> j \<and>
           valueOfVarInModel model (getVariableParent j j1)"
proof -
  obtain j1 where j1: "0 \<le> j1" "j1 < getNumComponents graph" "j1 \<noteq> j"
      "valueOfVarInModel model (P_of j j1)"
    using phi_3_1_holds [OF assms] by blast
  have "j2 = j1"
    if j2: "0 \<le> j2" "j2 < getNumComponents graph" "j2 \<noteq> j"
      "valueOfVarInModel model (P_of j j2)" for j2
  proof (rule ccontr)
    assume "j2 \<noteq> j1"
    then consider "j1 < j2" | "j2 < j1"
      by linarith
    then show False
    proof cases
      case 1
      then show False
        using phi_3_2_holds [OF assms, of j1 j2] j1 j2 by simp
    next
      case 2
      then show False
        using phi_3_2_holds [OF assms, of j2 j1] j1 j2 by simp
    qed
  qed
  with j1 show ?thesis
    unfolding P_of_def by blast
qed

text \<open>
  On \<open>graph3\<close> with \<open>model_tree\<close>: component 1 has parent 0, hence not parent 2.
\<close>

theorem non_root_has_exactly_one_parent_witness:
  "valueOfVarInModel model_tree (EdgeConReduction graph3 1) \<and>
   (1::int) \<le> 1 \<and> 1 < getNumComponents graph3 \<and>
   valueOfVarInModel model_tree (getVariableParent 1 0) \<and>
   \<not> valueOfVarInModel model_tree (getVariableParent 1 2)"
proof -
  have j: "(1::int) \<le> 1" "1 < getNumComponents graph3"
    by (simp_all add: graph3_def)
  have p: "valueOfVarInModel model_tree (getVariableParent 1 0)"
    by code_simp
  have r: "(0::int) \<le> 2 \<and> 2 < getNumComponents graph3 \<and> (2::int) \<noteq> 1"
    by (simp add: graph3_def)
  have "\<not> valueOfVarInModel model_tree (getVariableParent 1 2)"
  proof
    assume q: "valueOfVarInModel model_tree (getVariableParent 1 2)"
    let ?Q = "\<lambda>j1. 0 \<le> j1 \<and> j1 < getNumComponents graph3 \<and> j1 \<noteq> 1 \<and>
        valueOfVarInModel model_tree (getVariableParent 1 j1)"
    have "?Q 0" "?Q 2"
      using p q r j by simp_all
    with non_root_has_exactly_one_parent [OF model_tree_sat j] have "(0::int) = 2"
      by blast
    then show False
      by simp
  qed
  with model_tree_sat j p show ?thesis
    by simp
qed

text \<open>
  C2, as the specification states it, fails: \<open>build_phi_8\<close> runs over all ordered pairs
  of distinct components, so for \<open>graph3\<close> it calls \<open>getVariableParent\<close> with child 0
  and parent 1.
\<close>

theorem root_is_child_in_phi_8:
  "getNumComponents graph3 = 3 \<and>
   getVariableParent 0 1 \<in> set (vars_of (build_phi_8 (init_g_context graph3 1))) \<and>
   getVariableParent 0 1 \<in> set (vars_of (EdgeConReduction graph3 1))"
  by code_simp

text \<open>
  Names of Parent variables: for arguments in the range of \<open>int\<close> nothing is cut off
  by \<open>snprintf\<close>, and different pairs of arguments give different names.
\<close>

lemma decimal_nonempty: "decimal x \<noteq> []"
  by (subst decimal.simps) simp

lemma digit_in_digits: "d < 10 \<Longrightarrow> ''0123456789'' ! d \<in> set ''0123456789''"
  by (rule nth_mem) simp

lemma decimal_digits: "set (decimal x) \<subseteq> set ''0123456789''"
proof (induction x rule: decimal.induct)
  case (1 x)
  show ?case
  proof (cases "x < 10")
    case True
    then show ?thesis
      using digit_in_digits [of x] by (subst decimal.simps) simp
  next
    case False
    have "x mod 10 < 10"
      by simp
    from digit_in_digits [OF this] 1 [OF False] False show ?thesis
      by (subst decimal.simps) simp
  qed
qed

lemma digit_inj:
  assumes "a < 10" "b < 10" "''0123456789'' ! a = ''0123456789'' ! b"
  shows "a = b"
proof -
  have "distinct ''0123456789''"
    by simp
  with assms show ?thesis
    by (simp add: nth_eq_iff_index_eq)
qed

lemma decimal_inj: "decimal x = decimal y \<Longrightarrow> x = y"
proof (induction x arbitrary: y rule: decimal.induct)
  case (1 x)
  show ?case
  proof (cases "x < 10")
    case x: True
    show ?thesis
    proof (cases "y < 10")
      case True
      with x "1.prems" show ?thesis
        by (simp add: decimal.simps [of x] decimal.simps [of y] digit_inj)
    next
      case False
      with x "1.prems" decimal_nonempty [of "y div 10"] show ?thesis
        by (simp add: decimal.simps [of x] decimal.simps [of y])
    qed
  next
    case x: False
    show ?thesis
    proof (cases "y < 10")
      case True
      with x "1.prems" decimal_nonempty [of "x div 10"] show ?thesis
        by (simp add: decimal.simps [of x] decimal.simps [of y])
    next
      case False
      with x "1.prems" have eq: "decimal (x div 10) = decimal (y div 10)"
        and d: "''0123456789'' ! (x mod 10) = ''0123456789'' ! (y mod 10)"
        by (simp_all add: decimal.simps [of x] decimal.simps [of y])
      from "1.IH" [OF x eq] have "x div 10 = y div 10" .
      moreover from d have "x mod 10 = y mod 10"
        by (intro digit_inj) simp_all
      ultimately show ?thesis
        by (metis div_mult_mod_eq)
    qed
  qed
qed

lemma decimal_length: "0 < k \<Longrightarrow> x < 10 ^ k \<Longrightarrow> length (decimal x) \<le> k"
proof (induction x arbitrary: k rule: decimal.induct)
  case (1 x)
  show ?case
  proof (cases "x < 10")
    case True
    with "1.prems" show ?thesis
      by (simp add: decimal.simps [of x])
  next
    case False
    with "1.prems" obtain k' where k: "k = Suc k'" "0 < k'"
      by (cases k; cases "k - 1") auto
    with "1.prems" have "x div 10 < 10 ^ k'"
      by (simp add: less_mult_imp_div_less mult.commute)
    from "1.IH" [OF False k(2) this] False k show ?thesis
      by (simp add: decimal.simps [of x])
  qed
qed

lemma fmt_d_length: "int_range x \<Longrightarrow> length (fmt_d x) \<le> 11"
proof -
  assume "int_range x"
  then have "nat (- x) < 10000000000" "nat x < 10000000000"
    unfolding int_range_def by linarith+
  then have "nat (- x) < 10 ^ 10" "nat x < 10 ^ 10"
    by simp_all
  then have "length (decimal (nat (- x))) \<le> 10" "length (decimal (nat x)) \<le> 10"
    by (intro decimal_length; simp)+
  then show ?thesis
    by (simp add: fmt_d_def)
qed

lemma decimal_no_minus: "CHR ''-'' \<notin> set (decimal n)"
proof -
  have "CHR ''-'' \<notin> set ''0123456789''"
    by simp
  with decimal_digits [of n] show ?thesis
    by (rule contra_subsetD)
qed

lemma decimal_no_comma: "CHR '','' \<notin> set (decimal n)"
proof -
  have "CHR '','' \<notin> set ''0123456789''"
    by simp
  with decimal_digits [of n] show ?thesis
    by (rule contra_subsetD)
qed

lemma fmt_d_no_comma: "CHR '','' \<notin> set (fmt_d x)"
  by (simp add: fmt_d_def decimal_no_comma)

lemma fmt_d_inj: "fmt_d x = fmt_d y \<Longrightarrow> x = y"
proof -
  assume eq: "fmt_d x = fmt_d y"
  have no_minus: "CHR ''-'' # s \<noteq> decimal n" for n s
  proof
    assume "CHR ''-'' # s = decimal n"
    then have "CHR ''-'' \<in> set (decimal n)"
      by (metis list.set_intros(1))
    with decimal_no_minus [of n] show False
      by simp
  qed
  consider "x < 0" "y < 0" | "0 \<le> x" "0 \<le> y" | "x < 0" "0 \<le> y" | "0 \<le> x" "y < 0"
    by linarith
  then show ?thesis
  proof cases
    case 1
    with eq have "decimal (nat (- x)) = decimal (nat (- y))"
      by (simp add: fmt_d_def)
    from decimal_inj [OF this] 1 show ?thesis
      by simp
  next
    case 2
    with eq have "decimal (nat x) = decimal (nat y)"
      by (simp add: fmt_d_def)
    from decimal_inj [OF this] 2 show ?thesis
      by simp
  next
    case 3
    with eq no_minus [of "decimal (nat (- x))" "nat y"] show ?thesis
      by (simp add: fmt_d_def)
  next
    case 4
    with eq no_minus [of "decimal (nat (- y))" "nat x"] show ?thesis
      by (simp add: fmt_d_def)
  qed
qed

lemma getVariableParent_inj:
  assumes r: "int_range a" "int_range b" "int_range c" "int_range d"
    and eq: "getVariableParent a b = getVariableParent c d"
  shows "a = c \<and> b = d"
proof -
  have len: "length (''p_['' @ fmt_d x @ '','' @ fmt_d y @ '']'') \<le> 39"
    if "int_range x" "int_range y" for x y
    using fmt_d_length [OF that(1)] fmt_d_length [OF that(2)] by simp
  from eq len [OF r(1,2)] len [OF r(3,4)]
  have "fmt_d a @ CHR '','' # (fmt_d b @ '']'') = fmt_d c @ CHR '','' # (fmt_d d @ '']'')"
    by (simp add: getVariableParent_def snprintf40_def)
  then have "fmt_d a = fmt_d c \<and> fmt_d b @ '']'' = fmt_d d @ '']''"
    by (simp add: append_Cons_eq_iff fmt_d_no_comma)
  then show ?thesis
    by (simp add: fmt_d_inj)
qed

lemma vars_of_P_of [simp]: "vars_of (P_of j j1) = [P_of j j1]"
  by (simp add: P_of_def getVariableParent_def)

lemma vars_of_phi_3_1:
  assumes "v \<in> set (vars_of (build_phi_3_1 ctx))"
  shows "\<exists>j j1. 1 \<le> j \<and> j < ctx_C_H ctx \<and> 0 \<le> j1 \<and> j1 < ctx_C_H ctx \<and> j1 \<noteq> j \<and>
           v = getVariableParent j j1"
proof -
  from assms obtain c where c: "c \<in> set (phi_3_1 ctx)" "v \<in> set (vars_of c)"
    by (auto simp: build_phi_3_1_def)
  from c(1) obtain j where j: "1 \<le> j" "j < ctx_C_H ctx" "c = Z3_mk_or (phi_3_1_disj ctx j)"
    unfolding in_phi_3_1 by blast
  with c(2) obtain d where d: "d \<in> set (phi_3_1_disj ctx j)" "v \<in> set (vars_of d)"
    by auto
  from d(1) obtain j1 where "0 \<le> j1" "j1 < ctx_C_H ctx" "d = P_of j j1" "j \<noteq> j1"
    unfolding in_phi_3_1_disj by blast
  with d(2) j show ?thesis
    by (auto simp: P_of_def [symmetric])
qed

lemma vars_of_phi_3_2:
  assumes "v \<in> set (vars_of (build_phi_3_2 ctx))"
  shows "\<exists>j j1. 1 \<le> j \<and> j < ctx_C_H ctx \<and> 0 \<le> j1 \<and> j1 < ctx_C_H ctx \<and> j1 \<noteq> j \<and>
           v = getVariableParent j j1"
proof -
  from assms obtain c where c: "c \<in> set (phi_3_2 ctx)" "v \<in> set (vars_of c)"
    by (auto simp: build_phi_3_2_def)
  from c(1) obtain j j1 j2 where j: "1 \<le> j" "j < ctx_C_H ctx"
    and j1: "0 \<le> j1" "j1 < ctx_C_H ctx - 1" "j1 \<noteq> j"
    and j2: "j1 + 1 \<le> j2" "j2 < ctx_C_H ctx" "j2 \<noteq> j"
    and c': "c = Z3_mk_or [Z3_mk_not (P_of j j1), Z3_mk_not (P_of j j2)]"
    unfolding in_phi_3_2 by blast
  from c(2) c' have "v = P_of j j1 \<or> v = P_of j j2"
    by auto
  then show ?thesis
  proof
    assume "v = P_of j j1"
    with j j1 show ?thesis
      unfolding P_of_def by (intro exI [of _ j] exI [of _ j1]) simp
  next
    assume "v = P_of j j2"
    with j j1 j2 show ?thesis
      unfolding P_of_def by (intro exI [of _ j] exI [of _ j2]) simp
  qed
qed

lemma P_in_phi_8:
  assumes "0 \<le> j1" "j1 < ctx_C_H ctx" "0 \<le> j2" "j2 < ctx_C_H ctx" "j1 \<noteq> j2"
  shows "getVariableParent j1 j2 \<in> set (vars_of (build_phi_8 ctx))"
proof -
  let ?c = "Z3_mk_and
              [Z3_mk_or [Z3_mk_not (P_of j1 j2), build_phi_6 ctx j1 j2],
               Z3_mk_or [Z3_mk_not (P_of j1 j2), build_phi_7 ctx j1 j2]]"
  have "?c \<in> set (phi_8 ctx)"
    using assms unfolding in_phi_8 by blast
  moreover have "P_of j1 j2 \<in> set (vars_of ?c)"
    by simp
  ultimately have "\<exists>c\<in>set (phi_8 ctx). P_of j1 j2 \<in> set (vars_of c)"
    by blast
  then show ?thesis
    by (simp add: build_phi_8_def P_of_def)
qed

text \<open>
  C2, amended. Every variable of \<open>\<phi>3\<close> (\<open>build_phi_3_1\<close> and \<open>build_phi_3_2\<close>) comes
  from a call \<open>getVariableParent(j, j1)\<close> whose child \<open>j\<close> lies in \<open>[1, C_H)\<close>, and
  no \<open>P(0, parent)\<close> occurs in \<open>\<phi>3\<close>: the root is never the child there. \<open>\<phi>8\<close>
  creates \<open>P(j1, j2)\<close> for every ordered pair of distinct components of \<open>[0, C_H)\<close>,
  the pairs with child 0 included. (\<open>C_H\<close> is a C \<open>int\<close>.)
\<close>

theorem parent_children_by_fragment:
  assumes "ctx_C_H ctx \<le> 2147483647"
  shows "(\<forall>v\<in>set (vars_of (build_phi_3 ctx)).
            \<exists>j j1. 1 \<le> j \<and> j < ctx_C_H ctx \<and> 0 \<le> j1 \<and> j1 < ctx_C_H ctx \<and> j1 \<noteq> j \<and>
              v = getVariableParent j j1) \<and>
         (\<forall>parent. int_range parent \<longrightarrow>
            getVariableParent 0 parent \<notin> set (vars_of (build_phi_3 ctx))) \<and>
         (\<forall>j1 j2. 0 \<le> j1 \<and> j1 < ctx_C_H ctx \<and> 0 \<le> j2 \<and> j2 < ctx_C_H ctx \<and> j1 \<noteq> j2 \<longrightarrow>
            getVariableParent j1 j2 \<in> set (vars_of (build_phi_8 ctx)))"
proof (intro conjI ballI allI impI)
  fix v
  assume "v \<in> set (vars_of (build_phi_3 ctx))"
  then have "v \<in> set (vars_of (build_phi_3_1 ctx)) \<or> v \<in> set (vars_of (build_phi_3_2 ctx))"
    by (simp add: build_phi_3_def)
  then show "\<exists>j j1. 1 \<le> j \<and> j < ctx_C_H ctx \<and> 0 \<le> j1 \<and> j1 < ctx_C_H ctx \<and> j1 \<noteq> j \<and>
      v = getVariableParent j j1"
    using vars_of_phi_3_1 vars_of_phi_3_2 by blast
next
  fix parent
  assume p: "int_range parent"
  show "getVariableParent 0 parent \<notin> set (vars_of (build_phi_3 ctx))"
  proof
    assume "getVariableParent 0 parent \<in> set (vars_of (build_phi_3 ctx))"
    then have "getVariableParent 0 parent \<in> set (vars_of (build_phi_3_1 ctx)) \<or>
        getVariableParent 0 parent \<in> set (vars_of (build_phi_3_2 ctx))"
      by (simp add: build_phi_3_def)
    then obtain j j1 where j: "1 \<le> j" "j < ctx_C_H ctx" "0 \<le> j1" "j1 < ctx_C_H ctx"
      and eq: "getVariableParent 0 parent = getVariableParent j j1"
      using vars_of_phi_3_1 vars_of_phi_3_2 by blast
    from j assms have "int_range j" "int_range j1" "int_range 0"
      by (simp_all add: int_range_def)
    from getVariableParent_inj [OF this(3) p this(1,2) eq] j show False
      by simp
  qed
next
  fix j1 j2
  assume "0 \<le> j1 \<and> j1 < ctx_C_H ctx \<and> 0 \<le> j2 \<and> j2 < ctx_C_H ctx \<and> j1 \<noteq> j2"
  then show "getVariableParent j1 j2 \<in> set (vars_of (build_phi_8 ctx))"
    by (simp add: P_in_phi_8)
qed

text \<open>
  On \<open>graph3\<close>: \<open>P(2, 1)\<close> occurs in \<open>\<phi>3\<close> and has its child in \<open>[1, 3)\<close>; \<open>P(0, 2)\<close>
  does not occur in \<open>\<phi>3\<close> and occurs in \<open>\<phi>8\<close>.
\<close>

theorem parent_children_by_fragment_witness:
  "ctx_C_H (init_g_context graph3 1) = 3 \<and>
   getVariableParent 2 1 \<in> set (vars_of (build_phi_3 (init_g_context graph3 1))) \<and>
   (\<exists>j j1. 1 \<le> j \<and> j < 3 \<and> 0 \<le> j1 \<and> j1 < 3 \<and> j1 \<noteq> j \<and>
      getVariableParent 2 1 = getVariableParent j j1) \<and>
   int_range 2 \<and>
   getVariableParent 0 2 \<notin> set (vars_of (build_phi_3 (init_g_context graph3 1))) \<and>
   getVariableParent 0 2 \<in> set (vars_of (build_phi_8 (init_g_context graph3 1)))"
proof -
  have C: "ctx_C_H (init_g_context graph3 1) = 3"
    by code_simp
  then have le: "ctx_C_H (init_g_context graph3 1) \<le> 2147483647"
    by simp
  have v: "getVariableParent 2 1 \<in> set (vars_of (build_phi_3 (init_g_context graph3 1)))"
    by code_simp
  have p: "int_range 2"
    by (simp add: int_range_def)
  have r: "(0::int) \<le> 0 \<and> 0 < ctx_C_H (init_g_context graph3 1) \<and> (0::int) \<le> 2 \<and>
      2 < ctx_C_H (init_g_context graph3 1) \<and> (0::int) \<noteq> 2"
    by (simp add: C)
  from parent_children_by_fragment [OF le] v r p C show ?thesis
    unfolding C by blast
qed

section \<open>Parent, edge and level\<close>

text \<open>
  C3, as the specification states it, fails in part (b), \<open>level(j1) = level(j2) - 1\<close>.
  In \<open>model_tree\<close>, a model of the formula of \<open>graph3\<close> (\<open>N = 2\<close>), \<open>P(1, 0)\<close> is true,
  component 1 is at level 1 and not at level 0, component 0 at level 0 and not at
  level 1: the level of \<open>j1 = 1\<close> is not the level of \<open>j2 = 0\<close> minus one. The equation
  with the two components exchanged, \<open>level(j2) = level(j1) - 1\<close>, fails as well:
  \<open>model_inverted\<close> is a model of the same formula in which \<open>P(1, 0)\<close> is true,
  component 1 is at level 0 only and component 0 at level 1 only. \<open>build_phi_7\<close>
  constrains the level of \<open>j2\<close> only for the levels \<open>h\<close> of \<open>j1\<close> from 1 on.
\<close>

theorem parent_level_counterexample:
  "valueOfVarInModel model_tree (EdgeConReduction graph3 1) \<and>
   valueOfVarInModel model_tree (getVariableParent 1 0) \<and>
   ctx_N (init_g_context graph3 1) = 2 \<and>
   valueOfVarInModel model_tree (getVariableLevelInSpanningTree 1 1) \<and>
   \<not> valueOfVarInModel model_tree (getVariableLevelInSpanningTree 0 1) \<and>
   valueOfVarInModel model_tree (getVariableLevelInSpanningTree 0 0) \<and>
   \<not> valueOfVarInModel model_tree (getVariableLevelInSpanningTree 1 0) \<and>
   (1::int) \<noteq> 0 - 1 \<and>
   valueOfVarInModel model_inverted (EdgeConReduction graph3 1) \<and>
   valueOfVarInModel model_inverted (getVariableParent 1 0) \<and>
   valueOfVarInModel model_inverted (getVariableLevelInSpanningTree 0 1) \<and>
   \<not> valueOfVarInModel model_inverted (getVariableLevelInSpanningTree 1 1) \<and>
   valueOfVarInModel model_inverted (getVariableLevelInSpanningTree 1 0) \<and>
   \<not> valueOfVarInModel model_inverted (getVariableLevelInSpanningTree 0 0) \<and>
   (1::int) \<noteq> 0 - 1"
  by code_simp

text \<open>
  C3, with part (b) amended. In a model of the formula returned by \<open>EdgeConReduction\<close>,
  for distinct components \<open>j1\<close>, \<open>j2\<close> of \<open>[0, C_H)\<close>: if \<open>P(j1, j2)\<close> is true then
  (a) some existing edge between the two components carries a translator identity
  \<open>i\<close> of \<open>[0, N)\<close>, that is, \<open>X((u, v), i)\<close> is true in the model, and (b) whenever
  \<open>j1\<close> is at a level \<open>h1 \<ge> 1\<close> and \<open>j2\<close> at a level \<open>h2\<close>, both in \<open>[0, N)\<close>, then
  \<open>h2 = h1 - 1\<close>. Moreover, when no existing edge lies between \<open>j1\<close> and \<open>j2\<close>,
  \<open>build_phi_6\<close> returns the constant false and \<open>P(j1, j2)\<close> is false in the model.
\<close>

theorem parent_needs_translator_edge_and_level:
  assumes "valueOfVarInModel model (EdgeConReduction graph cost)"
    and "0 \<le> j1" "j1 < getNumComponents graph"
    and "0 \<le> j2" "j2 < getNumComponents graph"
    and "j1 \<noteq> j2"
  shows "(valueOfVarInModel model (getVariableParent j1 j2) \<longrightarrow>
            (\<exists>u v i. existing_edge (init_g_context graph cost) u v \<and>
               between_components graph j1 j2 u v \<and>
               0 \<le> i \<and> i < ctx_N (init_g_context graph cost) \<and>
               valueOfVarInModel model (getVariableIsIthTranslator u v i)) \<and>
            (\<forall>h1 h2. 1 \<le> h1 \<and> h1 < ctx_N (init_g_context graph cost) \<and>
               0 \<le> h2 \<and> h2 < ctx_N (init_g_context graph cost) \<and>
               valueOfVarInModel model (getVariableLevelInSpanningTree h1 j1) \<and>
               valueOfVarInModel model (getVariableLevelInSpanningTree h2 j2) \<longrightarrow>
               h2 = h1 - 1)) \<and>
         (\<not> (\<exists>u v. existing_edge (init_g_context graph cost) u v \<and>
               between_components graph j1 j2 u v) \<longrightarrow>
            build_phi_6 (init_g_context graph cost) j1 j2 = Z3_mk_false \<and>
            \<not> valueOfVarInModel model (getVariableParent j1 j2))"
proof -
  let ?ctx = "init_g_context graph cost"
  have G: "ctx_G ?ctx = getGraph graph" "ctx_graph ?ctx = graph"
    by (simp_all add: init_g_context_def)
  have edge: "\<exists>u v i. existing_edge ?ctx u v \<and> between_components graph j1 j2 u v \<and>
               0 \<le> i \<and> i < ctx_N ?ctx \<and>
               valueOfVarInModel model (getVariableIsIthTranslator u v i)"
    if p: "valueOfVarInModel model (getVariableParent j1 j2)"
  proof -
    have "valueOfVarInModel model (build_phi_6 ?ctx j1 j2)"
      using phi_8_holds [OF assms] p by (simp add: P_of_def)
    from phi_6_holds [OF this] show ?thesis
      unfolding existing_edge_def between_components_def X_of_def ctx_n_init ctx_N_init G
      by blast
  qed
  have level: "h2 = h1 - 1"
    if p: "valueOfVarInModel model (getVariableParent j1 j2)"
      and h: "1 \<le> h1" "h1 < ctx_N ?ctx" "0 \<le> h2" "h2 < ctx_N ?ctx"
      and l: "valueOfVarInModel model (getVariableLevelInSpanningTree h1 j1)"
        "valueOfVarInModel model (getVariableLevelInSpanningTree h2 j2)"
    for h1 h2
  proof (rule ccontr)
    assume ne: "h2 \<noteq> h1 - 1"
    have "valueOfVarInModel model (build_phi_7 ?ctx j1 j2)"
      using phi_8_holds [OF assms] p by (simp add: P_of_def)
    from phi_7_holds [OF this, of h1] h l
    have below: "valueOfVarInModel model (L_of j2 (h1 - 1))"
      by (simp add: L_of_def)
    from ne consider "h2 < h1 - 1" | "h1 - 1 < h2"
      by linarith
    then show False
    proof cases
      case 1
      then show False
        using phi_4_2_holds [OF assms(1,4,5), of h2 "h1 - 1"] h l below
        by (simp add: L_of_def)
    next
      case 2
      then show False
        using phi_4_2_holds [OF assms(1,4,5), of "h1 - 1" h2] h l below
        by (simp add: L_of_def)
    qed
  qed
  have none: "build_phi_6 ?ctx j1 j2 = Z3_mk_false"
    if "\<not> (\<exists>u v. existing_edge ?ctx u v \<and> between_components graph j1 j2 u v)"
    using that phi_6_false [of ?ctx j1 j2]
    unfolding existing_edge_def between_components_def ctx_n_init G by blast
  from edge level none show ?thesis
    by blast
qed

text \<open>
  On \<open>graph3\<close> with \<open>model_tree\<close>: \<open>P(1, 0)\<close> is true, an edge between the components 0
  and 1 carries a translator, the levels are 1 and 0; no edge lies between the
  components 1 and 2, and \<open>P(1, 2)\<close> is false.
\<close>

theorem parent_needs_translator_edge_and_level_witness:
  "valueOfVarInModel model_tree (EdgeConReduction graph3 1) \<and>
   valueOfVarInModel model_tree (getVariableParent 1 0) \<and>
   ctx_N (init_g_context graph3 1) = 2 \<and>
   valueOfVarInModel model_tree (getVariableLevelInSpanningTree 1 1) \<and>
   valueOfVarInModel model_tree (getVariableLevelInSpanningTree 0 0) \<and>
   \<not> valueOfVarInModel model_tree (getVariableLevelInSpanningTree 1 0) \<and>
   (\<exists>u v i. existing_edge (init_g_context graph3 1) u v \<and>
      between_components graph3 1 0 u v \<and>
      0 \<le> i \<and> i < 2 \<and> valueOfVarInModel model_tree (getVariableIsIthTranslator u v i)) \<and>
   \<not> (\<exists>u v. existing_edge (init_g_context graph3 1) u v \<and> between_components graph3 1 2 u v) \<and>
   build_phi_6 (init_g_context graph3 1) 1 2 = Z3_mk_false \<and>
   \<not> valueOfVarInModel model_tree (getVariableParent 1 2)"
proof -
  have c: "(0::int) \<le> 1" "1 < getNumComponents graph3" "(0::int) \<le> 0"
    "0 < getNumComponents graph3" "(1::int) \<noteq> 0" "(0::int) \<le> 2"
    "2 < getNumComponents graph3" "(1::int) \<noteq> 2"
    by (simp_all add: graph3_def)
  have N: "ctx_N (init_g_context graph3 1) = 2"
    by code_simp
  have p: "valueOfVarInModel model_tree (getVariableParent 1 0)"
    and l: "valueOfVarInModel model_tree (getVariableLevelInSpanningTree 1 1)"
      "valueOfVarInModel model_tree (getVariableLevelInSpanningTree 0 0)"
      "\<not> valueOfVarInModel model_tree (getVariableLevelInSpanningTree 1 0)"
    by code_simp+
  have no_edge: "\<not> (\<exists>u v. existing_edge (init_g_context graph3 1) u v \<and>
      between_components graph3 1 2 u v)"
    by (auto simp: existing_edge_def between_components_def graph3_def init_g_context_def)
  from parent_needs_translator_edge_and_level [OF model_tree_sat c(1,2,3,4,5)] p
  have down: "\<exists>u v i. existing_edge (init_g_context graph3 1) u v \<and>
      between_components graph3 1 0 u v \<and>
      0 \<le> i \<and> i < 2 \<and> valueOfVarInModel model_tree (getVariableIsIthTranslator u v i)"
    unfolding N by blast
  from parent_needs_translator_edge_and_level [OF model_tree_sat c(1,2,6,7,8)] no_edge
  have up: "build_phi_6 (init_g_context graph3 1) 1 2 = Z3_mk_false \<and>
      \<not> valueOfVarInModel model_tree (getVariableParent 1 2)"
    by blast
  from model_tree_sat p N l down no_edge up show ?thesis
    by blast
qed

section \<open>Levels and the depth bound\<close>

text \<open>
  In a model of the formula, every component has exactly one level of \<open>[0, N)\<close>
  (\<open>\<phi>4\<close>).
\<close>

lemma component_has_exactly_one_level:
  assumes "valueOfVarInModel model (EdgeConReduction graph cost)"
    and "0 \<le> i" "i < getNumComponents graph"
  shows "\<exists>!n. 0 \<le> n \<and> n < ctx_N (init_g_context graph cost) \<and>
           valueOfVarInModel model (getVariableLevelInSpanningTree n i)"
proof -
  let ?N = "ctx_N (init_g_context graph cost)"
  obtain n where n: "0 \<le> n" "n < ?N" "valueOfVarInModel model (L_of i n)"
    using phi_4_1_holds [OF assms] by blast
  have "n' = n"
    if n': "0 \<le> n'" "n' < ?N" "valueOfVarInModel model (L_of i n')" for n'
  proof (rule ccontr)
    assume "n' \<noteq> n"
    then consider "n < n'" | "n' < n"
      by linarith
    then show False
    proof cases
      case 1
      then show False
        using phi_4_2_holds [OF assms, of n n'] n n' by simp
    next
      case 2
      then show False
        using phi_4_2_holds [OF assms, of n' n] n n' by simp
    qed
  qed
  with n show ?thesis
    unfolding L_of_def by blast
qed

text \<open>
  C6. The claim: in a model of the formula every component has exactly one Level
  variable set among all Level variables the reduction creates, at a level of
  \<open>[0, N)\<close>. The code at \<open>graph2\<close> with bound 0, where \<open>N = 1\<close>: \<open>build_phi_5\<close> calls
  \<open>L_(n, i)\<close> with the level \<open>n\<close> in the component position, which creates the
  variable of component 0 at level 1; \<open>model_two_levels\<close> satisfies the formula and
  sets component 0 both at level 0 and at level 1.
\<close>

theorem level_variable_outside_range:
  "valueOfVarInModel model_two_levels (EdgeConReduction graph2 0) \<and>
   ctx_N (init_g_context graph2 0) = 1 \<and>
   getVariableLevelInSpanningTree 1 0 \<in> set (vars_of (EdgeConReduction graph2 0)) \<and>
   getVariableLevelInSpanningTree 1 0 \<in> set (phi_5 (init_g_context graph2 0)) \<and>
   valueOfVarInModel model_two_levels (getVariableLevelInSpanningTree 0 0) \<and>
   valueOfVarInModel model_two_levels (getVariableLevelInSpanningTree 1 0)"
  by code_simp

text \<open>
  C1. The claim: in a model of the formula some component is at a level \<open>\<ge> k\<close>. The
  code at \<open>graph3\<close> with \<open>k = 1\<close>, where \<open>N = 2\<close>: the entries of \<open>phi_5\<close> are the
  variables of component 1 at levels 0, 1 and 2, because \<open>L_(n, i)\<close> is called with
  the level first; \<open>model_flat\<close> satisfies the formula with all three components at
  level 0 and none at level 1.
\<close>

theorem phi_5_level_bound_fails:
  "valueOfVarInModel model_flat (EdgeConReduction graph3 1) \<and>
   ctx_N (init_g_context graph3 1) = 2 \<and>
   phi_5 (init_g_context graph3 1) =
     [getVariableLevelInSpanningTree 0 1, getVariableLevelInSpanningTree 1 1,
      getVariableLevelInSpanningTree 2 1] \<and>
   valueOfVarInModel model_flat (getVariableLevelInSpanningTree 0 0) \<and>
   valueOfVarInModel model_flat (getVariableLevelInSpanningTree 0 1) \<and>
   valueOfVarInModel model_flat (getVariableLevelInSpanningTree 0 2) \<and>
   \<not> valueOfVarInModel model_flat (getVariableLevelInSpanningTree 1 0) \<and>
   \<not> valueOfVarInModel model_flat (getVariableLevelInSpanningTree 1 1) \<and>
   \<not> valueOfVarInModel model_flat (getVariableLevelInSpanningTree 1 2)"
  by code_simp

text \<open>
  C7. When \<open>k \<ge> N = C_H - 1\<close>, for \<open>k\<close> a C \<open>int\<close>, the loop of \<open>build_phi_5\<close> writes
  nothing, \<open>build_phi_5\<close> returns the empty disjunction and no model satisfies the
  formula returned by \<open>EdgeConReduction\<close>.
\<close>

theorem EdgeConReduction_unsat_beyond_N:
  assumes "getNumComponents graph - 1 \<le> cost" "cost \<le> 2147483647"
  shows "build_phi_5 (init_g_context graph cost) = Z3_mk_or [] \<and>
         \<not> valueOfVarInModel model (EdgeConReduction graph cost)"
  using phi_5_empty [OF assms]
  by (simp add: build_phi_5_def EdgeConReduction_def Let_def)

text \<open>On \<open>graph2\<close> (\<open>C_H = 2\<close>) with \<open>k = 1\<close>, for the model that sets every variable.\<close>

theorem EdgeConReduction_unsat_beyond_N_witness:
  "getNumComponents graph2 - 1 \<le> 1 \<and> (1::int) \<le> 2147483647 \<and>
   build_phi_5 (init_g_context graph2 1) = Z3_mk_or [] \<and>
   \<not> valueOfVarInModel (\<lambda>name. True) (EdgeConReduction graph2 1)"
proof -
  have h: "getNumComponents graph2 - 1 \<le> 1" "(1::int) \<le> 2147483647"
    by (simp_all add: graph2_def)
  show ?thesis
    using EdgeConReduction_unsat_beyond_N [OF h, of "\<lambda>name. True"] h
    by simp
qed

section \<open>The calls of the decoder\<close>

lemma count_list_for_int:
  "count_list (for_int a b body) x = (\<Sum>i\<in>{a..<b}. count_list (body i) x)"
proof (induction a b body rule: for_int.induct)
  case (1 i b body)
  show ?case
  proof (cases "i < b")
    case True
    then have "{i..<b} = insert i {i + 1..<b}"
      by auto
    then have "(\<Sum>j\<in>{i..<b}. count_list (body j) x) =
        count_list (body i) x + (\<Sum>j\<in>{i + 1..<b}. count_list (body j) x)"
      by simp
    with True 1 show ?thesis
      by (simp add: for_int.simps [of i b body])
  next
    case False
    then show ?thesis
      by (simp add: for_int.simps [of i b body])
  qed
qed

lemma count_translator_ids:
  "count_list
     (for_int 0 N (\<lambda>i. if P i then [addTranslator n1 n2] else []))
     (addTranslator a b) =
   (if n1 = a \<and> n2 = b then card {i. 0 \<le> i \<and> i < N \<and> P i} else 0)"
proof (cases "n1 = a \<and> n2 = b")
  case True
  have "(\<Sum>i\<in>{0..<N}. if P i then 1 else 0) = card {i \<in> {0..<N}. P i}"
    by (simp add: sum.inter_filter [symmetric])
  moreover have "{i \<in> {0..<N}. P i} = {i. 0 \<le> i \<and> i < N \<and> P i}"
    by auto
  moreover have "count_list (if P i then [addTranslator n1 n2] else []) (addTranslator a b) =
      (if P i then 1 else 0)" for i
    using True by simp
  ultimately show ?thesis
    using True by (simp add: count_list_for_int)
next
  case False
  then have "count_list (if P i then [addTranslator n1 n2] else []) (addTranslator a b) = 0" for i
    by auto
  then have "count_list (for_int 0 N (\<lambda>i. if P i then [addTranslator n1 n2] else []))
      (addTranslator a b) = 0"
    by (simp add: count_list_for_int)
  then show ?thesis
    by (simp only: if_not_P [OF False])
qed

lemma sum_single:
  fixes f :: "int \<Rightarrow> nat"
  shows "(\<Sum>i\<in>{a..<b}. if i = c then f i else 0) = (if a \<le> c \<and> c < b then f c else 0)"
  by (simp add: sum.delta)

text \<open>
  The calls, counted by the test \<open>is_the_ith_translator\<close> of the inner loop.
\<close>

lemma decoder_calls_count:
  "\<exists>calls. getTranslatorSetFromModel model graph = calls @ [computesHomogeneousComponents] \<and>
     computesHomogeneousComponents \<notin> set calls \<and>
     (\<forall>n1 n2. count_list calls (addTranslator n1 n2) =
        (if 0 \<le> n1 \<and> n1 < n2 \<and> n2 < numNodes (getGraph graph) \<and>
            isEdge (getGraph graph) n1 n2
         then card {i. 0 \<le> i \<and> i < getNumComponents graph - 1 \<and>
                      is_the_ith_translator model graph n1 n2 i}
         else 0))"
proof -
  let ?n = "numNodes (getGraph graph)"
  let ?N = "getNumComponents graph - 1"
  let ?ids = "\<lambda>n1 n2. for_int 0 ?N (\<lambda>i.
      if is_the_ith_translator model graph n1 n2 i then [addTranslator n1 n2] else [])"
  let ?row = "\<lambda>n1. for_int (n1 + 1) ?n (\<lambda>n2.
      if isEdge (getGraph graph) n1 n2 then ?ids n1 n2 else [])"
  let ?calls = "for_int 0 ?n ?row"
  let ?K = "\<lambda>a b. card {i. 0 \<le> i \<and> i < ?N \<and> is_the_ith_translator model graph a b i}"
  have eq: "getTranslatorSetFromModel model graph = ?calls @ [computesHomogeneousComponents]"
    by (simp add: getTranslatorSetFromModel_def Let_def)
  have notin: "computesHomogeneousComponents \<notin> set ?calls"
    by (auto simp: in_for_int split: if_splits)
  have count: "count_list ?calls (addTranslator a b) =
      (if 0 \<le> a \<and> a < b \<and> b < ?n \<and> isEdge (getGraph graph) a b then ?K a b else 0)"
    for a b
  proof -
    have cell: "count_list (if isEdge (getGraph graph) n1 n2 then ?ids n1 n2 else [])
          (addTranslator a b) =
        (if n2 = b then (if n1 = a \<and> isEdge (getGraph graph) a b then ?K a b else 0) else 0)"
      for n1 n2
      by (simp add: count_translator_ids)
    have row: "count_list (?row n1) (addTranslator a b) =
        (if n1 = a then (if a < b \<and> b < ?n \<and> isEdge (getGraph graph) a b then ?K a b else 0)
         else 0)"
      for n1
    proof -
      have "count_list (?row n1) (addTranslator a b) =
          (\<Sum>n2\<in>{n1 + 1..<?n}.
             if n2 = b then (if n1 = a \<and> isEdge (getGraph graph) a b then ?K a b else 0) else 0)"
        by (simp only: count_list_for_int [of "n1 + 1"] cell)
      also have "\<dots> = (if n1 + 1 \<le> b \<and> b < ?n
          then (if n1 = a \<and> isEdge (getGraph graph) a b then ?K a b else 0) else 0)"
        by (rule sum_single)
      finally show ?thesis
        by auto
    qed
    have "count_list ?calls (addTranslator a b) =
        (\<Sum>n1\<in>{0..<?n}.
           if n1 = a then (if a < b \<and> b < ?n \<and> isEdge (getGraph graph) a b then ?K a b else 0)
           else 0)"
      by (simp only: count_list_for_int [of 0] row)
    also have "\<dots> = (if 0 \<le> a \<and> a < ?n
        then (if a < b \<and> b < ?n \<and> isEdge (getGraph graph) a b then ?K a b else 0) else 0)"
      by (rule sum_single)
    finally show ?thesis
      by auto
  qed
  from eq notin count show ?thesis
    by blast
qed

text \<open>
  C8. For every model and graph, \<open>getTranslatorSetFromModel\<close> calls
  \<open>addTranslator(graph, n1, n2)\<close> once for every identity \<open>i\<close> of \<open>[0, N)\<close> whose variable
  \<open>X((n1, n2), i)\<close> is true in the model when \<open>n1 < n2\<close> is an existing edge, and never
  otherwise; it calls \<open>computesHomogeneousComponents\<close> exactly once, as its last call.
\<close>

theorem getTranslatorSetFromModel_calls:
  "\<exists>calls. getTranslatorSetFromModel model graph = calls @ [computesHomogeneousComponents] \<and>
     computesHomogeneousComponents \<notin> set calls \<and>
     (\<forall>n1 n2. count_list calls (addTranslator n1 n2) =
        (if 0 \<le> n1 \<and> n1 < n2 \<and> n2 < numNodes (getGraph graph) \<and>
            isEdge (getGraph graph) n1 n2
         then card {i. 0 \<le> i \<and> i < getNumComponents graph - 1 \<and>
                      valueOfVarInModel model (getVariableIsIthTranslator n1 n2 i)}
         else 0))"
  using decoder_calls_count [of model graph]
  by (simp only: is_the_ith_translator_def)

text \<open>
  On \<open>graph3\<close> with \<open>model_tree\<close>, where \<open>X((0, 1), 0)\<close> and \<open>X((0, 2), 1)\<close> are the true
  translator variables: one call for the edge \<open>(0, 1)\<close>, one for the edge \<open>(0, 2)\<close>,
  none for the pair \<open>(1, 2)\<close>, then \<open>computesHomogeneousComponents\<close>.
\<close>

theorem getTranslatorSetFromModel_calls_witness:
  "getTranslatorSetFromModel model_tree graph3 =
     [addTranslator 0 1, addTranslator 0 2, computesHomogeneousComponents] \<and>
   valueOfVarInModel model_tree (getVariableIsIthTranslator 0 1 0) \<and>
   \<not> valueOfVarInModel model_tree (getVariableIsIthTranslator 0 1 1) \<and>
   \<not> valueOfVarInModel model_tree (getVariableIsIthTranslator 0 2 0) \<and>
   valueOfVarInModel model_tree (getVariableIsIthTranslator 0 2 1) \<and>
   count_list [addTranslator 0 1, addTranslator 0 2] (addTranslator 0 1) = 1 \<and>
   count_list [addTranslator 0 1, addTranslator 0 2] (addTranslator 1 2) = 0"
proof -
  have t: "getTranslatorSetFromModel model_tree graph3 =
      [addTranslator 0 1, addTranslator 0 2, computesHomogeneousComponents]"
    by code_simp
  have x: "valueOfVarInModel model_tree (getVariableIsIthTranslator 0 1 0)"
    "\<not> valueOfVarInModel model_tree (getVariableIsIthTranslator 0 1 1)"
    "\<not> valueOfVarInModel model_tree (getVariableIsIthTranslator 0 2 0)"
    "valueOfVarInModel model_tree (getVariableIsIthTranslator 0 2 1)"
    by code_simp+
  from getTranslatorSetFromModel_calls [of model_tree graph3]
  obtain calls where c: "getTranslatorSetFromModel model_tree graph3 =
      calls @ [computesHomogeneousComponents]"
    by blast
  with t have "calls = [addTranslator 0 1, addTranslator 0 2]"
    by simp
  with t x show ?thesis
    by simp
qed

section \<open>Clause counts and array lengths\<close>

lemma for_int_cong:
  "a = a' \<Longrightarrow> b = b' \<Longrightarrow> (\<And>i. a' \<le> i \<Longrightarrow> i < b' \<Longrightarrow> body i = body' i) \<Longrightarrow>
   for_int a b body = for_int a' b' body'"
proof -
  assume eq: "a = a'" "b = b'" and body: "\<And>i. a' \<le> i \<Longrightarrow> i < b' \<Longrightarrow> body i = body' i"
  have "(\<And>i. a \<le> i \<Longrightarrow> i < b \<Longrightarrow> body i = body' i) \<Longrightarrow> for_int a b body = for_int a b body'"
  proof (induction a b body rule: for_int.induct)
    case (1 i b body)
    show ?case
    proof (cases "i < b")
      case True
      with 1 show ?thesis
        by (simp add: for_int.simps [of i b body] for_int.simps [of i b body'])
    next
      case False
      then show ?thesis
        by (simp add: for_int.simps [of i b body] for_int.simps [of i b body'])
    qed
  qed
  with eq body show ?thesis
    by simp
qed

lemma length_for_int:
  "int (length (for_int a b body)) = (\<Sum>i\<in>{a..<b}. int (length (body i)))"
proof (induction a b body rule: for_int.induct)
  case (1 i b body)
  show ?case
  proof (cases "i < b")
    case True
    then have "{i..<b} = insert i {i + 1..<b}"
      by auto
    then have "(\<Sum>j\<in>{i..<b}. int (length (body j))) =
        int (length (body i)) + (\<Sum>j\<in>{i + 1..<b}. int (length (body j)))"
      by simp
    with True 1 show ?thesis
      by (simp add: for_int.simps [of i b body])
  next
    case False
    then show ?thesis
      by (simp add: for_int.simps [of i b body])
  qed
qed

lemma for_uint_0: "for_uint 0 b body = for_int 0 (u32 b) body"
  by (simp add: for_uint_for_int)

lemma for_uint_succ:
  "0 \<le> e \<Longrightarrow> e < u32 c \<Longrightarrow> for_uint (e + 1) b body = for_int (e + 1) (u32 b) body"
proof -
  assume "0 \<le> e" "e < u32 c"
  then have "0 \<le> e + 1" "e + 1 < 4294967296"
    using u32_less [of c] by linarith+
  then show ?thesis
    by (rule for_uint_for_int)
qed

lemma triangle_sum:
  "0 \<le> N \<Longrightarrow> 2 * (\<Sum>i\<in>{0..<N}. N - 1 - i) = N * (N - 1)" for N :: int
proof (induction N rule: int_ge_induct)
  case base
  show ?case by simp
next
  case (step N)
  have "{0..<N + 1} = insert N {0..<N}"
    using step.hyps by auto
  then have "(\<Sum>i\<in>{0..<N + 1}. N + 1 - 1 - i) = (\<Sum>i\<in>{0..<N}. N - i)"
    by simp
  also have "\<dots> = (\<Sum>i\<in>{0..<N}. (N - 1 - i) + 1)"
    by (rule sum.cong) simp_all
  also have "\<dots> = (\<Sum>i\<in>{0..<N}. N - 1 - i) + (\<Sum>i\<in>{0..<N}. 1)"
    by (rule sum.distrib)
  also have "(\<Sum>i\<in>{0..<N}. (1::int)) = N"
    using step.hyps by simp
  finally show ?case
    using step.IH by (simp add: algebra_simps)
qed

lemma pairs_count:
  assumes "0 \<le> N"
  shows "(\<Sum>i\<in>{0..<N}. \<Sum>j\<in>{i + 1..<N}. (1::int)) = N * (N - 1) div 2"
proof -
  have "(\<Sum>i\<in>{0..<N}. \<Sum>j\<in>{i + 1..<N}. (1::int)) = (\<Sum>i\<in>{0..<N}. N - 1 - i)"
    by (rule sum.cong) simp_all
  with triangle_sum [OF assms] show ?thesis
    by simp
qed

lemma length_phi_4_2:
  "int (length (phi_4_2 ctx)) =
     (if 0 \<le> ctx_C_H ctx then ctx_C_H ctx else 0) * (u32 (ctx_N ctx) * (u32 (ctx_N ctx) - 1) div 2)"
proof -
  have "phi_4_2 ctx =
      for_int 0 (ctx_C_H ctx) (\<lambda>i.
        for_int 0 (u32 (ctx_N ctx)) (\<lambda>n.
          for_int (n + 1) (u32 (ctx_N ctx)) (\<lambda>n_prime.
            [Z3_mk_or [Z3_mk_not (L_of i n), Z3_mk_not (L_of i n_prime)]])))"
    unfolding phi_4_2_def
    by (simp add: for_uint_0 for_uint_succ cong: for_int_cong)
  then have "int (length (phi_4_2 ctx)) =
      (\<Sum>i\<in>{0..<ctx_C_H ctx}. \<Sum>n\<in>{0..<u32 (ctx_N ctx)}. \<Sum>n'\<in>{n + 1..<u32 (ctx_N ctx)}. 1)"
    by (simp add: length_for_int)
  also have "\<dots> = (\<Sum>i\<in>{0..<ctx_C_H ctx}. u32 (ctx_N ctx) * (u32 (ctx_N ctx) - 1) div 2)"
    by (simp only: pairs_count [OF u32_nonneg])
  finally show ?thesis
    by simp
qed

lemma length_edges_of:
  "int (length (edges_of ctx)) =
     (\<Sum>e1\<in>{0..<u32 (ctx_n ctx)}. \<Sum>e2\<in>{e1 + 1..<u32 (ctx_n ctx)}.
        if isEdge (ctx_G ctx) e1 e2 then 1 else 0)"
proof -
  have "edges_of ctx =
      for_int 0 (u32 (ctx_n ctx)) (\<lambda>e1.
        for_int (e1 + 1) (u32 (ctx_n ctx)) (\<lambda>e2.
          if isEdge (ctx_G ctx) e1 e2 then [(e1, e2)] else []))"
    unfolding edges_of_def
    by (simp add: for_uint_0 for_uint_succ cong: for_int_cong)
  then show ?thesis
    by (simp add: length_for_int if_distrib [of length] if_distrib [of int] cong: if_cong)
qed

lemma length_phi_2_2:
  "int (length (phi_2_2 ctx)) =
     int (length (edges_of ctx)) * (u32 (ctx_N ctx) * (u32 (ctx_N ctx) - 1) div 2)"
proof -
  let ?n = "u32 (ctx_n ctx)" and ?N = "u32 (ctx_N ctx)"
  have "phi_2_2 ctx =
      for_int 0 ?n (\<lambda>e1.
        for_int (e1 + 1) ?n (\<lambda>e2.
          if isEdge (ctx_G ctx) e1 e2 then
            for_int 0 ?N (\<lambda>i.
              for_int (i + 1) ?N (\<lambda>j.
                [Z3_mk_or [Z3_mk_not (X_of e1 e2 i), Z3_mk_not (X_of e1 e2 j)]]))
          else []))"
    unfolding phi_2_2_def
    by (simp add: for_uint_0 for_uint_succ cong: for_int_cong if_cong)
  then have "int (length (phi_2_2 ctx)) =
      (\<Sum>e1\<in>{0..<?n}. \<Sum>e2\<in>{e1 + 1..<?n}.
         if isEdge (ctx_G ctx) e1 e2 then (\<Sum>i\<in>{0..<?N}. \<Sum>j\<in>{i + 1..<?N}. 1) else 0)"
    by (simp add: length_for_int if_distrib [of length] if_distrib [of int] cong: if_cong)
  also have "\<dots> = (\<Sum>e1\<in>{0..<?n}. \<Sum>e2\<in>{e1 + 1..<?n}.
         (if isEdge (ctx_G ctx) e1 e2 then 1 else 0) * (?N * (?N - 1) div 2))"
    by (simp only: pairs_count [OF u32_nonneg] if_distrib [of "\<lambda>x. x * _"] mult_1 mult_zero_left)
  also have "\<dots> = int (length (edges_of ctx)) * (?N * (?N - 1) div 2)"
    by (simp only: length_edges_of sum_distrib_right)
  finally show ?thesis .
qed

lemma sum_pair_single:
  fixes a b n c :: int
  assumes "0 \<le> a" "a < b" "b < n"
  shows "(\<Sum>f1\<in>{0..<n}. \<Sum>f2\<in>{f1 + 1..<n}. if f1 = a \<and> f2 = b then c else 0) = c"
proof -
  have "(\<Sum>f2\<in>{f1 + 1..<n}. if f1 = a \<and> f2 = b then c else 0) =
      (if f1 = a then c else 0)" for f1
  proof (cases "f1 = a")
    case True
    have "(\<Sum>f2\<in>{a + 1..<n}. if f2 = b then c else 0) = c"
      by (subst sum.delta) (use assms in auto)
    with True show ?thesis
      by simp
  next
    case False
    then show ?thesis
      by simp
  qed
  then have "(\<Sum>f1\<in>{0..<n}. \<Sum>f2\<in>{f1 + 1..<n}. if f1 = a \<and> f2 = b then c else 0) =
      (\<Sum>f1\<in>{0..<n}. if f1 = a then c else 0)"
    by simp
  also have "\<dots> = c"
    by (subst sum.delta) (use assms in auto)
  finally show ?thesis .
qed

lemma other_edges_count:
  fixes e1 e2 n :: int
  assumes "0 \<le> e1" "e1 < e2" "e2 < n" "E e1 e2"
  shows "(\<Sum>f1\<in>{0..<n}. \<Sum>f2\<in>{f1 + 1..<n}.
            if (e1 \<noteq> f1 \<or> e2 \<noteq> f2) \<and> E f1 f2 then (1::int) else 0) =
         (\<Sum>f1\<in>{0..<n}. \<Sum>f2\<in>{f1 + 1..<n}. if E f1 f2 then 1 else 0) - 1"
proof -
  have "(if (e1 \<noteq> f1 \<or> e2 \<noteq> f2) \<and> E f1 f2 then (1::int) else 0) =
      (if E f1 f2 then 1 else 0) - (if f1 = e1 \<and> f2 = e2 then 1 else 0)" for f1 f2
    using assms(4) by auto
  then have "(\<Sum>f1\<in>{0..<n}. \<Sum>f2\<in>{f1 + 1..<n}.
            if (e1 \<noteq> f1 \<or> e2 \<noteq> f2) \<and> E f1 f2 then (1::int) else 0) =
      (\<Sum>f1\<in>{0..<n}. \<Sum>f2\<in>{f1 + 1..<n}.
            (if E f1 f2 then 1 else 0) - (if f1 = e1 \<and> f2 = e2 then 1 else 0))"
    by simp
  also have "\<dots> = (\<Sum>f1\<in>{0..<n}. \<Sum>f2\<in>{f1 + 1..<n}. if E f1 f2 then 1 else 0) -
      (\<Sum>f1\<in>{0..<n}. \<Sum>f2\<in>{f1 + 1..<n}. if f1 = e1 \<and> f2 = e2 then 1 else 0)"
    by (simp only: sum_subtractf)
  finally show ?thesis
    using sum_pair_single [OF assms(1-3), of 1] by simp
qed

lemma length_phi_2_1:
  "int (length (phi_2_1 ctx)) =
     u32 (ctx_N ctx) * (int (length (edges_of ctx)) * (int (length (edges_of ctx)) - 1))"
proof -
  let ?n = "u32 (ctx_n ctx)" and ?N = "u32 (ctx_N ctx)"
  let ?E = "isEdge (ctx_G ctx)"
  let ?m = "int (length (edges_of ctx))"
  have "phi_2_1 ctx =
      for_int 0 ?N (\<lambda>i.
        for_int 0 ?n (\<lambda>e1.
          for_int (e1 + 1) ?n (\<lambda>e2.
            if ?E e1 e2 then
              for_int 0 ?n (\<lambda>f1.
                for_int (f1 + 1) ?n (\<lambda>f2.
                  if (e1 \<noteq> f1 \<or> e2 \<noteq> f2) \<and> ?E f1 f2 then
                    [Z3_mk_or [Z3_mk_not (X_of e1 e2 i), Z3_mk_not (X_of f1 f2 i)]]
                  else []))
            else [])))"
    unfolding phi_2_1_def
    by (simp add: for_uint_0 for_uint_succ cong: for_int_cong if_cong)
  then have "int (length (phi_2_1 ctx)) =
      (\<Sum>i\<in>{0..<?N}. \<Sum>e1\<in>{0..<?n}. \<Sum>e2\<in>{e1 + 1..<?n}.
         if ?E e1 e2 then
           (\<Sum>f1\<in>{0..<?n}. \<Sum>f2\<in>{f1 + 1..<?n}.
              if (e1 \<noteq> f1 \<or> e2 \<noteq> f2) \<and> ?E f1 f2 then 1 else 0)
         else 0)"
    by (simp add: length_for_int if_distrib [of length] if_distrib [of int] cong: if_cong)
  also have "\<dots> = (\<Sum>i\<in>{0..<?N}. \<Sum>e1\<in>{0..<?n}. \<Sum>e2\<in>{e1 + 1..<?n}.
         (if ?E e1 e2 then 1 else 0) * (?m - 1))"
  proof (intro sum.cong refl)
    fix i e1 e2
    assume "e1 \<in> {0..<?n}" "e2 \<in> {e1 + 1..<?n}"
    then have r: "0 \<le> e1" "e1 < e2" "e2 < ?n"
      by simp_all
    show "(if ?E e1 e2 then
           (\<Sum>f1\<in>{0..<?n}. \<Sum>f2\<in>{f1 + 1..<?n}.
              if (e1 \<noteq> f1 \<or> e2 \<noteq> f2) \<and> ?E f1 f2 then 1 else 0)
         else 0) = (if ?E e1 e2 then 1 else 0) * (?m - 1)"
      using other_edges_count [OF r, of ?E] by (simp add: length_edges_of)
  qed
  also have "\<dots> = (\<Sum>i\<in>{0..<?N}. ?m * (?m - 1))"
    by (simp only: length_edges_of sum_distrib_right)
  finally show ?thesis
    by simp
qed

lemma sum_not_eq:
  fixes a b j :: int
  assumes "a \<le> b"
  shows "(\<Sum>i\<in>{a..<b}. if i \<noteq> j then (1::int) else 0) =
         (b - a) - (if a \<le> j \<and> j < b then 1 else 0)"
proof -
  have "(\<Sum>i\<in>{a..<b}. if i \<noteq> j then (1::int) else 0) =
      (\<Sum>i\<in>{a..<b}. 1 - (if i = j then 1 else 0))"
    by (rule sum.cong) simp_all
  also have "\<dots> = (\<Sum>i\<in>{a..<b}. 1) - (\<Sum>i\<in>{a..<b}. if i = j then 1 else 0)"
    by (rule sum_subtractf)
  also have "(\<Sum>i\<in>{a..<b}. (1::int)) = b - a"
    using assms by simp
  also have "(\<Sum>i\<in>{a..<b}. if i = j then (1::int) else 0) = (if a \<le> j \<and> j < b then 1 else 0)"
    by (subst sum.delta) auto
  finally show ?thesis .
qed

lemma sum_below:
  fixes n j :: int
  assumes "0 \<le> j" "j \<le> n"
  shows "(\<Sum>i\<in>{0..<n}. if i < j then (1::int) else 0) = j"
proof -
  have "(\<Sum>i\<in>{0..<n}. if i < j then (1::int) else 0) = (\<Sum>i\<in>{i \<in> {0..<n}. i < j}. 1)"
    by (rule sum.inter_filter [symmetric]) simp
  also have "{i \<in> {0..<n}. i < j} = {0..<j}"
    using assms by auto
  finally show ?thesis
    using assms by simp
qed

lemma triangle_sum_short:
  fixes C :: int
  assumes "1 \<le> C"
  shows "2 * (\<Sum>i\<in>{0..<C - 1}. C - 1 - i) = C * (C - 1)"
proof -
  have "{0..<C} = insert (C - 1) {0..<C - 1}"
    using assms by auto
  then have "(\<Sum>i\<in>{0..<C}. C - 1 - i) = (\<Sum>i\<in>{0..<C - 1}. C - 1 - i)"
    by simp
  with triangle_sum [of C] assms show ?thesis
    by simp
qed

lemma pairs_avoiding_count:
  fixes C j :: int
  assumes "1 \<le> j" "j < C"
  shows "2 * (\<Sum>j1\<in>{0..<C - 1}.
            if j1 \<noteq> j then (\<Sum>j2\<in>{j1 + 1..<C}. if j2 \<noteq> j then (1::int) else 0) else 0) =
         (C - 1) * (C - 2)"
proof -
  let ?A = "\<lambda>j1. (C - 1 - j1) - (if j1 < j then (1::int) else 0)"
  have "(\<Sum>j1\<in>{0..<C - 1}.
            if j1 \<noteq> j then (\<Sum>j2\<in>{j1 + 1..<C}. if j2 \<noteq> j then (1::int) else 0) else 0) =
      (\<Sum>j1\<in>{0..<C - 1}. ?A j1 - (if j1 = j then ?A j else 0))"
  proof (rule sum.cong [OF refl])
    fix j1
    assume "j1 \<in> {0..<C - 1}"
    then have "j1 + 1 \<le> C"
      by simp
    from sum_not_eq [OF this, of j] assms
    have "(\<Sum>j2\<in>{j1 + 1..<C}. if j2 \<noteq> j then (1::int) else 0) = ?A j1"
      by auto
    then show "(if j1 \<noteq> j then (\<Sum>j2\<in>{j1 + 1..<C}. if j2 \<noteq> j then (1::int) else 0) else 0) =
        ?A j1 - (if j1 = j then ?A j else 0)"
      by simp
  qed
  also have "\<dots> = (\<Sum>j1\<in>{0..<C - 1}. C - 1 - j1) -
      (\<Sum>j1\<in>{0..<C - 1}. if j1 < j then 1 else 0) -
      (\<Sum>j1\<in>{0..<C - 1}. if j1 = j then ?A j else 0)"
    by (simp only: sum_subtractf)
  also have "(\<Sum>j1\<in>{0..<C - 1}. if j1 < j then (1::int) else 0) = j"
    using assms by (intro sum_below) simp_all
  also have "(\<Sum>j1\<in>{0..<C - 1}. if j1 = j then ?A j else 0) = C - 1 - j"
    by (subst sum.delta) (use assms in auto)
  finally show ?thesis
    using triangle_sum_short [of C] assms by (simp add: algebra_simps)
qed

lemma length_phi_3_2:
  "int (length (phi_3_2 ctx)) =
     (if 1 \<le> ctx_C_H ctx
      then (ctx_C_H ctx - 1) * ((ctx_C_H ctx - 1) * (ctx_C_H ctx - 2) div 2) else 0)"
proof -
  let ?C = "ctx_C_H ctx"
  let ?Q = "\<lambda>j. \<Sum>j1\<in>{0..<?C - 1}.
      if j1 \<noteq> j then (\<Sum>j2\<in>{j1 + 1..<?C}. if j2 \<noteq> j then (1::int) else 0) else 0"
  have "int (length (phi_3_2 ctx)) = (\<Sum>j\<in>{1..<?C}. ?Q j)"
    unfolding phi_3_2_def
    by (simp add: length_for_int if_distrib [of length] if_distrib [of int] cong: if_cong)
  also have "\<dots> = (\<Sum>j\<in>{1..<?C}. (?C - 1) * (?C - 2) div 2)"
  proof (rule sum.cong [OF refl])
    fix j
    assume "j \<in> {1..<?C}"
    then have "2 * ?Q j = (?C - 1) * (?C - 2)"
      by (intro pairs_avoiding_count) simp_all
    then show "?Q j = (?C - 1) * (?C - 2) div 2"
      by simp
  qed
  finally show ?thesis
    by simp
qed

lemma u32_minus_one: "u32 (u32 x - 1) = u32 (x - 1)"
  by (simp add: u32_def mod_diff_left_eq)

lemma cube_bound:
  fixes c :: int
  assumes "0 \<le> c" "c * c * c \<le> 2147483647"
  shows "c \<le> 1290"
proof (rule ccontr)
  assume "\<not> c \<le> 1290"
  then have c: "1291 \<le> c"
    by simp
  then have "1291 * 1291 \<le> c * c"
    by (intro mult_mono) simp_all
  with c have "1291 * 1291 * 1291 \<le> c * c * c"
    by (intro mult_mono) simp_all
  with assms(2) show False
    by simp
qed

lemma square_bound:
  fixes m :: int
  assumes "0 \<le> m" "m * m \<le> 4294967296"
  shows "m \<le> 65536"
proof (rule ccontr)
  assume "\<not> m \<le> 65536"
  then have "65537 \<le> m"
    by simp
  then have "65537 * 65537 \<le> m * m"
    by (intro mult_mono) simp_all
  with assms(2) show False
    by simp
qed

lemma half_le:
  fixes x :: int
  shows "0 \<le> x \<Longrightarrow> x div 2 \<le> x"
  by presburger

lemma half_mono:
  fixes c :: int
  assumes "0 \<le> c"
  shows "c * (c - 1) div 2 \<le> c * c div 2"
proof -
  have "c * (c - 1) \<le> c * c"
    using assms by (intro mult_left_mono) simp_all
  then show ?thesis
    by (rule zdiv_mono1) simp
qed

lemma graph_star_edges:
  "int (length (edges_of (init_g_context graph_star 1))) = 46341"
proof -
  let ?E = "\<lambda>u v :: int. (u = 0 \<and> 0 < v) \<or> (v = 0 \<and> 0 < u)"
  have "int (length (edges_of (init_g_context graph_star 1))) =
      (\<Sum>e1\<in>{0..<46342}. \<Sum>e2\<in>{e1 + 1..<46342}. if ?E e1 e2 then 1 else 0)"
    by (simp add: length_edges_of init_g_context_def graph_star_def u32_def)
  also have "\<dots> = (\<Sum>e1\<in>{0..<46342::int}. if e1 = 0 then 46341 else 0)"
  proof (rule sum.cong [OF refl])
    fix e1 :: int
    assume e1: "e1 \<in> {0..<46342}"
    have "(\<Sum>e2\<in>{e1 + 1..<46342}. if ?E e1 e2 then (1::int) else 0) =
        (\<Sum>e2\<in>{e1 + 1..<46342}. if e1 = 0 then 1 else 0)"
      using e1 by (intro sum.cong refl) auto
    also have "\<dots> = (if e1 = 0 then 46341 else 0)"
      by simp
    finally show "(\<Sum>e2\<in>{e1 + 1..<46342}. if ?E e1 e2 then (1::int) else 0) =
        (if e1 = 0 then 46341 else 0)" .
  qed
  also have "\<dots> = 46341"
    by (subst sum.delta) auto
  finally show ?thesis .
qed

text \<open>
  The clause counts and the declared lengths, when no length expression overflows.
\<close>

lemma clause_counts_and_lengths:
  assumes ctx: "ctx = init_g_context graph cost"
    and C: "C = getNumComponents graph" and N: "N = C - 1"
    and m: "m = numEdges (getGraph graph)"
    and edges: "m = int (length (edges_of ctx))"
    and m1: "1 \<le> m" and C2: "2 \<le> C"
    and fit1: "N * (m * m - 1) < 4294967296"
    and fit2: "m * (N * N div 2) < 4294967296"
    and fit3: "N * N * N \<le> 2147483647"
  shows "int (length (phi_2_1 ctx)) = N * m * (m - 1) \<and>
         phi_2_1_length ctx = N * (m * m - 1) \<and>
         int (length (phi_2_1 ctx)) \<le> phi_2_1_length ctx \<and>
         int (length (phi_2_2 ctx)) = m * (N * (N - 1) div 2) \<and>
         phi_2_2_length ctx = m * (N * N div 2) \<and>
         int (length (phi_2_2 ctx)) \<le> phi_2_2_length ctx \<and>
         int (length (phi_3_2 ctx)) = (C - 1) * ((C - 1) * (C - 2) div 2) \<and>
         phi_3_2_length ctx = Some ((C - 1) * (C - 1) * (C - 1)) \<and>
         int (length (phi_3_2 ctx)) \<le> (C - 1) * (C - 1) * (C - 1) \<and>
         int (length (phi_4_2 ctx)) = C * (N * (N - 1) div 2) \<and>
         phi_4_2_length ctx = C * (N * N div 2) \<and>
         int (length (phi_4_2 ctx)) \<le> phi_4_2_length ctx"
proof -
  have N1: "1 \<le> N"
    using C2 N by simp
  have N_le: "N \<le> 1290"
    using cube_bound [of N] N1 fit3 by simp
  have "m * m - 1 \<le> N * (m * m - 1)"
    using N1 m1 mult_right_mono [of 1 N "m * m - 1"] by simp
  with fit1 have "m * m \<le> 4294967296"
    by simp
  with m1 have m_le: "m \<le> 65536"
    using square_bound [of m] by simp
  have NN: "N * N \<le> 1290 * 1290"
    using N1 N_le by (intro mult_mono) simp_all
  have NN0: "0 \<le> N * N"
    by simp
  have sq0: "0 \<le> m * m - 1"
    using m1 mult_mono [of 1 m 1 m] by simp
  have ctx_N: "ctx_N ctx = N" "u32 N = N"
    using N1 N_le by (simp_all add: ctx init_g_context_def C N u32_id)
  have ctx_m: "ctx_m ctx = m"
    using m1 m_le by (simp add: ctx init_g_context_def m u32_id)
  have ctx_C: "ctx_C_H ctx = C"
    by (simp add: ctx init_g_context_def C)
  have uNN: "u32 (N * N) = N * N"
    using NN NN0 by (intro u32_id) simp_all
  have half0: "0 \<le> N * N div 2" "0 \<le> N * (N - 1) div 2"
    using N1 by simp_all
  have half: "N * (N - 1) div 2 \<le> N * N div 2"
    using half_mono [of N] N1 by simp
  \<comment> \<open>\<open>\<phi>2.1\<close>\<close>
  have l21: "int (length (phi_2_1 ctx)) = N * m * (m - 1)"
    by (simp add: length_phi_2_1 ctx_N edges [symmetric])
  have a21: "phi_2_1_length ctx = N * (m * m - 1)"
  proof -
    have "u32 (u32 (m * m) - 1) = m * m - 1"
      unfolding u32_minus_one using sq0 \<open>m * m \<le> 4294967296\<close> by (intro u32_id) simp_all
    moreover have "u32 (N * (m * m - 1)) = N * (m * m - 1)"
      using fit1 N1 sq0 by (intro u32_id) simp_all
    ultimately show ?thesis
      by (simp add: phi_2_1_length_def ctx_N ctx_m)
  qed
  have b21: "N * m * (m - 1) \<le> N * (m * m - 1)"
  proof -
    have "m * (m - 1) \<le> m * m - 1"
      using m1 by (simp add: algebra_simps)
    then have "N * (m * (m - 1)) \<le> N * (m * m - 1)"
      using N1 by (intro mult_left_mono) simp_all
    then show ?thesis
      by (simp add: mult.assoc)
  qed
  \<comment> \<open>\<open>\<phi>2.2\<close>\<close>
  have l22: "int (length (phi_2_2 ctx)) = m * (N * (N - 1) div 2)"
    by (simp add: length_phi_2_2 ctx_N edges [symmetric])
  have a22: "phi_2_2_length ctx = m * (N * N div 2)"
  proof -
    have "u32 (m * (N * N div 2)) = m * (N * N div 2)"
      using fit2 m1 half0 by (intro u32_id) simp_all
    then show ?thesis
      by (simp add: phi_2_2_length_def ctx_N ctx_m uNN)
  qed
  have b22: "m * (N * (N - 1) div 2) \<le> m * (N * N div 2)"
    using half m1 by (intro mult_left_mono) simp_all
  \<comment> \<open>\<open>\<phi>3.2\<close>\<close>
  have l32: "int (length (phi_3_2 ctx)) = (C - 1) * ((C - 1) * (C - 2) div 2)"
    using C2 by (simp add: length_phi_3_2 ctx_C)
  have a32: "phi_3_2_length ctx = Some ((C - 1) * (C - 1) * (C - 1))"
  proof -
    have "int_result N = Some N"
      using N1 N_le by (simp add: int_result_def int_range_def)
    moreover have "- 2147483648 \<le> N * N"
      using NN0 by linarith
    with NN have "int_result (N * N) = Some (N * N)"
      by (simp add: int_result_def int_range_def)
    moreover have "0 \<le> N * N * N"
      using N1 by simp
    then have "int_result (N * N * N) = Some (N * N * N)"
      using fit3 by (simp add: int_result_def int_range_def)
    ultimately show ?thesis
      by (simp add: phi_3_2_length_def ctx_C N [symmetric])
  qed
  have b32: "(C - 1) * ((C - 1) * (C - 2) div 2) \<le> (C - 1) * (C - 1) * (C - 1)"
  proof -
    have "N * (N - 1) div 2 \<le> N * N"
      using half half_le [OF NN0] by linarith
    then have "N * (N * (N - 1) div 2) \<le> N * (N * N)"
      using N1 by (intro mult_left_mono) simp_all
    then show ?thesis
      by (simp add: N mult.assoc)
  qed
  \<comment> \<open>\<open>\<phi>4.2\<close>\<close>
  have l42: "int (length (phi_4_2 ctx)) = C * (N * (N - 1) div 2)"
    using C2 by (simp add: length_phi_4_2 ctx_C ctx_N)
  have a42: "phi_4_2_length ctx = C * (N * N div 2)"
  proof -
    have C_le: "C \<le> 1291" "0 \<le> C"
      using N_le C2 N by simp_all
    have "N * N div 2 \<le> 1290 * 1290 div 2"
      using NN by (rule zdiv_mono1) simp
    with C_le half0 have "C * (N * N div 2) \<le> 1291 * (1290 * 1290 div 2)"
      by (intro mult_mono) simp_all
    then have "u32 (C * (N * N div 2)) = C * (N * N div 2)"
      using C_le half0 by (intro u32_id) simp_all
    moreover have "u32 C = C"
      using C_le by (intro u32_id) simp_all
    ultimately show ?thesis
      by (simp add: phi_4_2_length_def ctx_C ctx_N uNN)
  qed
  have b42: "C * (N * (N - 1) div 2) \<le> C * (N * N div 2)"
    using half C2 by (intro mult_left_mono) simp_all
  from l21 a21 b21 l22 a22 b22 l32 a32 b32 l42 a42 b42 show ?thesis
    by simp
qed

text \<open>
  The write index counts the entries as long as it stays in \<open>int\<close>.
\<close>

lemma pos_after_eq:
  "0 \<le> pos \<Longrightarrow> pos \<le> 2147483647 \<Longrightarrow>
   pos_after pos xs = (if pos + int (length xs) \<le> 2147483647 then Some (pos + int (length xs)) else None)"
proof (induction xs arbitrary: pos)
  case Nil
  then show ?case
    by simp
next
  case (Cons x xs)
  show ?case
  proof (cases "pos + 1 \<le> 2147483647")
    case True
    with Cons.prems have "int_result (pos + 1) = Some (pos + 1)"
      by (simp add: int_result_def int_range_def)
    moreover have "0 \<le> pos + 1"
      using Cons.prems by simp
    ultimately show ?thesis
      using Cons.IH [of "pos + 1"] True by (simp add: add.assoc)
  next
    case False
    then have "int_result (pos + 1) = None"
      by (simp add: int_result_def int_range_def)
    with False show ?thesis
      by simp
  qed
qed

lemma write_index_eq:
  "write_index arr =
     (if int (length arr) \<le> 2147483647 then Some (int (length arr)) else None)"
  by (simp add: write_index_def pos_after_eq)

lemma star_edges_sum:
  fixes n :: int
  assumes "1 \<le> n"
  shows "(\<Sum>e1\<in>{0..<n}. \<Sum>e2\<in>{e1 + 1..<n}.
            if (e1 = 0 \<and> 0 < e2) \<or> (e2 = 0 \<and> 0 < e1) then (1::int) else 0) = n - 1"
proof -
  let ?E = "\<lambda>u v :: int. (u = 0 \<and> 0 < v) \<or> (v = 0 \<and> 0 < u)"
  have "(\<Sum>e1\<in>{0..<n}. \<Sum>e2\<in>{e1 + 1..<n}. if ?E e1 e2 then (1::int) else 0) =
      (\<Sum>e1\<in>{0..<n}. if e1 = 0 then n - 1 else 0)"
  proof (rule sum.cong [OF refl])
    fix e1 :: int
    assume e1: "e1 \<in> {0..<n}"
    have "(\<Sum>e2\<in>{e1 + 1..<n}. if ?E e1 e2 then (1::int) else 0) =
        (\<Sum>e2\<in>{e1 + 1..<n}. if e1 = 0 then 1 else 0)"
      using e1 by (intro sum.cong refl) auto
    also have "\<dots> = (if e1 = 0 then n - 1 else 0)"
      using assms by simp
    finally show "(\<Sum>e2\<in>{e1 + 1..<n}. if ?E e1 e2 then (1::int) else 0) =
        (if e1 = 0 then n - 1 else 0)" .
  qed
  also have "\<dots> = n - 1"
    by (subst sum.delta) (use assms in auto)
  finally show ?thesis .
qed

lemma graph_star_two_edges:
  "int (length (edges_of (init_g_context graph_star_two 1))) = 46342"
proof -
  have "int (length (edges_of (init_g_context graph_star_two 1))) =
      (\<Sum>e1\<in>{0..<46343::int}. \<Sum>e2\<in>{e1 + 1..<46343}.
         if (e1 = 0 \<and> 0 < e2) \<or> (e2 = 0 \<and> 0 < e1) then 1 else 0)"
    by (simp only: length_edges_of) (simp add: init_g_context_def graph_star_two_def u32_def)
  also have "\<dots> = 46343 - 1"
    by (rule star_edges_sum) simp
  finally show ?thesis
    by simp
qed

lemma single_edge_sum:
  fixes n :: int
  assumes "2 \<le> n"
  shows "(\<Sum>e1\<in>{0..<n}. \<Sum>e2\<in>{e1 + 1..<n}.
            if (e1 = 0 \<and> e2 = 1) \<or> (e1 = 1 \<and> e2 = 0) then (1::int) else 0) = 1"
proof -
  let ?E = "\<lambda>u v :: int. (u = 0 \<and> v = 1) \<or> (u = 1 \<and> v = 0)"
  have "(\<Sum>e1\<in>{0..<n}. \<Sum>e2\<in>{e1 + 1..<n}. if ?E e1 e2 then (1::int) else 0) =
      (\<Sum>e1\<in>{0..<n}. if e1 = 0 then 1 else 0)"
  proof (rule sum.cong [OF refl])
    fix e1 :: int
    assume e1: "e1 \<in> {0..<n}"
    have "(\<Sum>e2\<in>{e1 + 1..<n}. if ?E e1 e2 then (1::int) else 0) =
        (\<Sum>e2\<in>{e1 + 1..<n}. if e2 = 1 then (if e1 = 0 then 1 else 0) else 0)"
      using e1 by (intro sum.cong refl) auto
    also have "\<dots> = (if e1 = 0 then 1 else 0)"
      using assms e1 by (subst sum.delta) auto
    finally show "(\<Sum>e2\<in>{e1 + 1..<n}. if ?E e1 e2 then (1::int) else 0) =
        (if e1 = 0 then 1 else 0)" .
  qed
  also have "\<dots> = 1"
    by (subst sum.delta) (use assms in auto)
  finally show ?thesis .
qed

lemma graph_wide_edges:
  "int (length (edges_of (init_g_context graph_wide 1))) = 1"
proof -
  have "int (length (edges_of (init_g_context graph_wide 1))) =
      (\<Sum>e1\<in>{0..<1292::int}. \<Sum>e2\<in>{e1 + 1..<1292}.
         if (e1 = 0 \<and> e2 = 1) \<or> (e1 = 1 \<and> e2 = 0) then 1 else 0)"
    by (simp only: length_edges_of) (simp add: init_g_context_def graph_wide_def u32_def)
  also have "\<dots> = 1"
    by (rule single_edge_sum) simp
  finally show ?thesis .
qed

lemma phi_2_2_count_bound:
  fixes N m :: int
  assumes N1: "1 \<le> N" and N_le: "N \<le> 1290" and m1: "1 \<le> m"
    and pos1: "N * m * (m - 1) \<le> 2147483647"
  shows "m * (N * (N - 1) div 2) \<le> 2147483647"
proof (cases "N - 1 \<le> 2 * (m - 1)")
  case True
  have "N * (N - 1) \<le> N * (2 * (m - 1))"
    using True N1 by (intro mult_left_mono) simp_all
  then have "N * (N - 1) div 2 \<le> N * (2 * (m - 1)) div 2"
    by (rule zdiv_mono1) simp
  also have "N * (2 * (m - 1)) div 2 = N * (m - 1)"
  proof -
    have "N * (2 * (m - 1)) = 2 * (N * (m - 1))"
      by (simp only: mult.left_commute)
    then show ?thesis
      by (simp only: nonzero_mult_div_cancel_left)
  qed
  finally have "m * (N * (N - 1) div 2) \<le> m * (N * (m - 1))"
    using m1 by (intro mult_left_mono) simp_all
  also have "\<dots> = N * m * (m - 1)"
    by (simp add: algebra_simps)
  finally show ?thesis
    using pos1 by simp
next
  case False
  with N_le have m_le: "m \<le> 645"
    by simp
  have "N * (N - 1) \<le> 1290 * 1289"
    using N1 N_le by (intro mult_mono) simp_all
  then have "N * (N - 1) div 2 \<le> 1290 * 1289 div 2"
    by (rule zdiv_mono1) simp
  moreover have "0 \<le> N * (N - 1) div 2"
    using N1 by simp
  ultimately have "m * (N * (N - 1) div 2) \<le> 645 * (1290 * 1289 div 2)"
    using m1 m_le by (intro mult_mono) simp_all
  then show ?thesis
    by simp
qed

lemma phi_2_1_length_fits:
  fixes N m :: int
  assumes N1: "1 \<le> N" and m1: "1 \<le> m"
    and pos1: "N * m * (m - 1) \<le> 2147483647"
  shows "N * (m * m - 1) < 4294967296"
proof -
  have "0 \<le> N * (m - 1)"
    using N1 m1 by simp
  then have "N * (m - 1) * 1 \<le> N * (m - 1) * m"
    using m1 by (intro mult_left_mono) simp_all
  moreover have "N * (m - 1) * m = N * m * (m - 1)"
    by (simp only: mult.assoc mult.commute [of "m - 1" m])
  ultimately have "N * (m - 1) \<le> N * m * (m - 1)"
    by simp
  moreover have "N * (m * m - 1) = N * m * (m - 1) + N * (m - 1)"
    by (simp add: algebra_simps)
  ultimately show ?thesis
    using pos1 by simp
qed

lemma phi_2_2_length_fits:
  fixes N m :: int
  assumes N1: "1 \<le> N" and N_le: "N \<le> 1290" and m1: "1 \<le> m"
    and pos1: "N * m * (m - 1) \<le> 2147483647"
  shows "m * (N * N div 2) < 4294967296"
proof -
  have "N * N \<le> 2 * (N * (N - 1)) + 1"
  proof (cases "N = 1")
    case True
    then show ?thesis
      by simp
  next
    case False
    with N1 have "N * 1 \<le> N * (N - 1)"
      by (intro mult_left_mono) simp_all
    then show ?thesis
      by (simp add: algebra_simps)
  qed
  then have "N * N div 2 \<le> (2 * (N * (N - 1)) + 1) div 2"
    by (rule zdiv_mono1) simp
  also have "\<dots> = N * (N - 1)"
    by simp
  also have "\<dots> = 2 * (N * (N - 1) div 2)"
    by simp
  finally have "m * (N * N div 2) \<le> m * (2 * (N * (N - 1) div 2))"
    using m1 by (intro mult_left_mono) simp_all
  also have "\<dots> = 2 * (m * (N * (N - 1) div 2))"
    by simp
  finally show ?thesis
    using phi_2_2_count_bound [OF N1 N_le m1 pos1] by simp
qed

text \<open>
  C10, as stated for every graph with \<open>m \<ge> 1\<close> edges and \<open>C_H \<ge> 2\<close> components,
  fails: the declared lengths and the write index are computed in 32-bit arithmetic.
  For \<open>graph_star\<close> (\<open>m = 46341\<close>, \<open>C_H = 3\<close>, \<open>N = 2\<close>) the length \<open>N * (m * m - 1)\<close> of
  \<open>phi_2_1\<close> wraps around to 9264, and \<open>build_phi_2_1\<close> has \<open>N * m * (m - 1) =
  4294883880\<close> clauses to write. For \<open>graph_star_two\<close> (\<open>m = 46342\<close>, \<open>C_H = 2\<close>,
  \<open>N = 1\<close>) the length 2147580963 does not wrap around and is above the 2147534622
  clauses, but the write index \<open>int pos\<close> overflows before the last of them is
  written. For \<open>graph_wide\<close> (\<open>m = 1\<close>, \<open>C_H = 1292\<close>) \<open>build_phi_2_1\<close> writes no clause,
  and the length \<open>(C_H - 1)^3\<close> of \<open>phi_3_2\<close> overflows \<open>int\<close>.
\<close>

theorem array_length_or_index_overflows:
  "numEdges (getGraph graph_star) = int (length (edges_of (init_g_context graph_star 1))) \<and>
   numEdges (getGraph graph_star) = 46341 \<and>
   getNumComponents graph_star = 3 \<and>
   phi_2_1_length (init_g_context graph_star 1) = 9264 \<and>
   int (length (phi_2_1 (init_g_context graph_star 1))) = 4294883880 \<and>
   phi_2_1_length (init_g_context graph_star 1) <
     int (length (phi_2_1 (init_g_context graph_star 1))) \<and>
   numEdges (getGraph graph_star_two) =
     int (length (edges_of (init_g_context graph_star_two 1))) \<and>
   numEdges (getGraph graph_star_two) = 46342 \<and>
   getNumComponents graph_star_two = 2 \<and>
   phi_2_1_length (init_g_context graph_star_two 1) = 2147580963 \<and>
   int (length (phi_2_1 (init_g_context graph_star_two 1))) = 2147534622 \<and>
   write_index (phi_2_1 (init_g_context graph_star_two 1)) = None \<and>
   numEdges (getGraph graph_wide) = int (length (edges_of (init_g_context graph_wide 1))) \<and>
   numEdges (getGraph graph_wide) = 1 \<and>
   getNumComponents graph_wide = 1292 \<and>
   write_index (phi_2_1 (init_g_context graph_wide 1)) = Some 0 \<and>
   phi_3_2_length (init_g_context graph_wide 1) = None"
proof -
  have m: "numEdges (getGraph graph_star) = 46341" and C: "getNumComponents graph_star = 3"
    by (simp_all add: graph_star_def)
  have a: "phi_2_1_length (init_g_context graph_star 1) = 9264"
    by (simp add: phi_2_1_length_def init_g_context_def graph_star_def u32_def)
  have "u32 (ctx_N (init_g_context graph_star 1)) = 2"
    by (simp add: init_g_context_def graph_star_def u32_def)
  then have l: "int (length (phi_2_1 (init_g_context graph_star 1))) = 4294883880"
    by (simp add: length_phi_2_1 graph_star_edges u32_def)
  have m': "numEdges (getGraph graph_star_two) = 46342"
    and C': "getNumComponents graph_star_two = 2"
    by (simp_all add: graph_star_two_def)
  have a': "phi_2_1_length (init_g_context graph_star_two 1) = 2147580963"
    by (simp add: phi_2_1_length_def init_g_context_def graph_star_two_def u32_def)
  have "u32 (ctx_N (init_g_context graph_star_two 1)) = 1"
    by (simp add: init_g_context_def graph_star_two_def u32_def)
  then have l': "int (length (phi_2_1 (init_g_context graph_star_two 1))) = 2147534622"
    by (simp add: length_phi_2_1 graph_star_two_edges u32_def)
  then have w': "write_index (phi_2_1 (init_g_context graph_star_two 1)) = None"
    by (simp add: write_index_eq)
  have m'': "numEdges (getGraph graph_wide) = 1"
    and C'': "getNumComponents graph_wide = 1292"
    by (simp_all add: graph_wide_def)
  have "int (length (phi_2_1 (init_g_context graph_wide 1))) = 0"
    by (simp add: length_phi_2_1 graph_wide_edges)
  then have w'': "write_index (phi_2_1 (init_g_context graph_wide 1)) = Some 0"
    by (simp add: write_index_eq)
  have a'': "phi_3_2_length (init_g_context graph_wide 1) = None"
    by (simp add: phi_3_2_length_def init_g_context_def graph_wide_def int_result_def
        int_range_def)
  from m C a l graph_star_edges m' C' a' l' w' graph_star_two_edges
    m'' C'' w'' a'' graph_wide_edges show ?thesis
    by simp
qed

text \<open>
  C10, amended. For a graph with \<open>m \<ge> 1\<close> edges and \<open>C_H \<ge> 2\<close> components, where
  \<open>N = C_H - 1\<close>, such that \<open>N * m * (m - 1)\<close> and \<open>N * N * N\<close> are at most \<open>2^31 - 1\<close>,
  no builder writes more clauses than the declared length of its array, no length
  expression overflows, and the write index of every builder stays in \<open>int\<close> and ends
  at the number of clauses written: \<open>phi_2_1\<close> receives \<open>N * m * (m - 1)\<close> clauses and
  has length \<open>N * (m * m - 1)\<close>; \<open>phi_2_2\<close> receives \<open>m * N * (N - 1) / 2\<close> and has
  length \<open>m * (N * N div 2)\<close>; \<open>phi_3_2\<close> receives \<open>(C_H - 1) * (C_H - 1) * (C_H - 2) / 2\<close>
  and has length \<open>(C_H - 1)^3\<close>; \<open>phi_4_2\<close> receives \<open>C_H * N * (N - 1) / 2\<close> and has
  length \<open>C_H * (N * N div 2)\<close>.
\<close>

theorem array_lengths_suffice:
  assumes ctx: "ctx = init_g_context graph cost"
    and C: "C = getNumComponents graph" and N: "N = C - 1"
    and m: "m = numEdges (getGraph graph)"
    and edges: "m = int (length (edges_of ctx))"
    and m1: "1 \<le> m" and C2: "2 \<le> C"
    and fit3: "N * N * N \<le> 2147483647"
    and pos1: "N * m * (m - 1) \<le> 2147483647"
  shows "int (length (phi_2_1 ctx)) = N * m * (m - 1) \<and>
         write_index (phi_2_1 ctx) = Some (N * m * (m - 1)) \<and>
         phi_2_1_length ctx = N * (m * m - 1) \<and>
         int (length (phi_2_1 ctx)) \<le> phi_2_1_length ctx \<and>
         int (length (phi_2_2 ctx)) = m * (N * (N - 1) div 2) \<and>
         write_index (phi_2_2 ctx) = Some (m * (N * (N - 1) div 2)) \<and>
         phi_2_2_length ctx = m * (N * N div 2) \<and>
         int (length (phi_2_2 ctx)) \<le> phi_2_2_length ctx \<and>
         int (length (phi_3_2 ctx)) = (C - 1) * ((C - 1) * (C - 2) div 2) \<and>
         write_index (phi_3_2 ctx) = Some ((C - 1) * ((C - 1) * (C - 2) div 2)) \<and>
         phi_3_2_length ctx = Some ((C - 1) * (C - 1) * (C - 1)) \<and>
         int (length (phi_3_2 ctx)) \<le> (C - 1) * (C - 1) * (C - 1) \<and>
         int (length (phi_4_2 ctx)) = C * (N * (N - 1) div 2) \<and>
         write_index (phi_4_2 ctx) = Some (C * (N * (N - 1) div 2)) \<and>
         phi_4_2_length ctx = C * (N * N div 2) \<and>
         int (length (phi_4_2 ctx)) \<le> phi_4_2_length ctx"
proof -
  have N1: "1 \<le> N"
    using C2 N by simp
  have N_le: "N \<le> 1290"
    using cube_bound [of N] N1 fit3 by simp
  note fit1 = phi_2_1_length_fits [OF N1 m1 pos1]
  note fit2 = phi_2_2_length_fits [OF N1 N_le m1 pos1]
  note old = clause_counts_and_lengths [OF ctx C N m edges m1 C2 fit1 fit2 fit3]
  have l21: "int (length (phi_2_1 ctx)) = N * m * (m - 1)"
    and l22: "int (length (phi_2_2 ctx)) = m * (N * (N - 1) div 2)"
    and l32: "int (length (phi_3_2 ctx)) = (C - 1) * ((C - 1) * (C - 2) div 2)"
    and b32: "int (length (phi_3_2 ctx)) \<le> (C - 1) * (C - 1) * (C - 1)"
    and l42: "int (length (phi_4_2 ctx)) = C * (N * (N - 1) div 2)"
    and a42: "phi_4_2_length ctx = C * (N * N div 2)"
    and b42: "int (length (phi_4_2 ctx)) \<le> phi_4_2_length ctx"
    using old by simp_all
  have w21: "write_index (phi_2_1 ctx) = Some (N * m * (m - 1))"
    using pos1 by (simp add: write_index_eq l21)
  have w22: "write_index (phi_2_2 ctx) = Some (m * (N * (N - 1) div 2))"
    using phi_2_2_count_bound [OF N1 N_le m1 pos1] by (simp add: write_index_eq l22)
  have "int (length (phi_3_2 ctx)) \<le> 2147483647"
    using b32 fit3 N by simp
  then have w32: "write_index (phi_3_2 ctx) = Some ((C - 1) * ((C - 1) * (C - 2) div 2))"
    by (simp add: write_index_eq l32)
  have "C * (N * N div 2) \<le> 1291 * (1290 * 1290 div 2)"
  proof -
    have "N * N \<le> 1290 * 1290"
      using N1 N_le by (intro mult_mono) simp_all
    then have "N * N div 2 \<le> 1290 * 1290 div 2"
      by (rule zdiv_mono1) simp
    moreover have "0 \<le> N * N div 2"
      by simp
    moreover have "C \<le> 1291" "0 \<le> C"
      using N_le N C2 by simp_all
    ultimately show ?thesis
      by (intro mult_mono) simp_all
  qed
  with a42 b42 have "int (length (phi_4_2 ctx)) \<le> 2147483647"
    by simp
  then have w42: "write_index (phi_4_2 ctx) = Some (C * (N * (N - 1) div 2))"
    by (simp add: write_index_eq l42)
  from old w21 w22 w32 w42 show ?thesis
    by simp
qed

text \<open>
  On \<open>graph3\<close> (\<open>m = 2\<close>, \<open>C_H = 3\<close>): 4 clauses in an array of 6, 2 in 4, 2 in 8 and
  3 in 6, the write index ending at 4, 2, 2 and 3.
\<close>

theorem array_lengths_suffice_witness:
  "numEdges (getGraph graph3) = int (length (edges_of (init_g_context graph3 1))) \<and>
   numEdges (getGraph graph3) = 2 \<and> getNumComponents graph3 = 3 \<and>
   int (length (phi_2_1 (init_g_context graph3 1))) = 4 \<and>
   write_index (phi_2_1 (init_g_context graph3 1)) = Some 4 \<and>
   phi_2_1_length (init_g_context graph3 1) = 6 \<and>
   int (length (phi_2_2 (init_g_context graph3 1))) = 2 \<and>
   write_index (phi_2_2 (init_g_context graph3 1)) = Some 2 \<and>
   phi_2_2_length (init_g_context graph3 1) = 4 \<and>
   int (length (phi_3_2 (init_g_context graph3 1))) = 2 \<and>
   write_index (phi_3_2 (init_g_context graph3 1)) = Some 2 \<and>
   phi_3_2_length (init_g_context graph3 1) = Some 8 \<and>
   int (length (phi_4_2 (init_g_context graph3 1))) = 3 \<and>
   write_index (phi_4_2 (init_g_context graph3 1)) = Some 3 \<and>
   phi_4_2_length (init_g_context graph3 1) = 6"
proof -
  have C: "(3::int) = getNumComponents graph3" and N: "(2::int) = 3 - 1"
    and m: "(2::int) = numEdges (getGraph graph3)"
    by (simp_all add: graph3_def)
  have edges: "(2::int) = int (length (edges_of (init_g_context graph3 1)))"
    by code_simp
  have fit: "(1::int) \<le> 2" "(2::int) \<le> 3" "(2::int) * 2 * 2 \<le> 2147483647"
    "(2::int) * 2 * (2 - 1) \<le> 2147483647"
    by simp_all
  from array_lengths_suffice [OF refl C N m edges fit] C m edges show ?thesis
    by simp
qed

end
